theory Spec2Isabelle
  imports Main "HOL-Library.Char_ord" "HOL-Library.AList"
begin

section \<open>Python values, dictionaries and exceptions\<close>

text \<open>
  The program handles rows read by \<^verbatim>\<open>csv.DictReader\<close> and JSON objects returned by
  the Meraki dashboard API. Both are Python dictionaries with string keys. A dictionary
  is modelled as an association list in insertion order (Python dictionaries keep it),
  read with \<^const>\<open>map_of\<close>. The values that occur are strings, \<^verbatim>\<open>None\<close> (a short CSV
  row), booleans (API rule fields such as \<^verbatim>\<open>syslogEnabled\<close>) and lists (the
  \<^verbatim>\<open>groupIds\<close> of an object payload).
\<close>

datatype pyval = Str string | PyNone | PyBool bool | PyList "pyval list"

type_synonym pydict = "(string \<times> pyval) list"

datatype py_error = KeyError pyval | AttributeError | TypeError

text \<open>\<^verbatim>\<open>dic[key]\<close>: raises \<^verbatim>\<open>KeyError\<close> on a missing key.\<close>

definition getitem :: "pydict \<Rightarrow> string \<Rightarrow> py_error + pyval" where
  "getitem dic key = (case map_of dic key of None \<Rightarrow> Inl (KeyError (Str key)) | Some v \<Rightarrow> Inr v)"

text \<open>
  \<^verbatim>\<open>str.lower()\<close>. Strings are byte lists here, and the model lowers the ASCII letters
  \<^verbatim>\<open>A\<close>..\<^verbatim>\<open>Z\<close> (codes 65..90, the lower-case letter is 32 further); every other byte
  is left as it is.
\<close>

definition lower_char :: "char \<Rightarrow> char" where
  "lower_char c = (let n = of_char c :: nat in if 65 \<le> n \<and> n \<le> 90 then char_of (n + 32) else c)"

definition lower :: "string \<Rightarrow> string" where
  "lower s = map lower_char s"

text \<open>\<^verbatim>\<open>v.lower()\<close> on a value: only strings have the method.\<close>

fun lower_method :: "pyval \<Rightarrow> py_error + string" where
  "lower_method (Str s) = Inr (lower s)"
| "lower_method _ = Inl AttributeError"

section \<open>The rule merge: \<^verbatim>\<open>combine_lists\<close> of main.py\<close>

definition key_fields :: "string list" where
  "key_fields = [''policy'', ''protocol'', ''srcCidr'', ''destCidr'', ''srcPort'', ''destPort'']"

text \<open>
  \<^verbatim>\<open>tuple(dic[key].lower() for key in key_fields)\<close>: the generator is consumed left to
  right, so the first field that is missing or is not a string raises.
\<close>

fun key_tuple_of :: "pydict \<Rightarrow> string list \<Rightarrow> py_error + string list" where
  "key_tuple_of dic [] = Inr []"
| "key_tuple_of dic (key # keys) =
     (case getitem dic key of
        Inl e \<Rightarrow> Inl e
      | Inr v \<Rightarrow>
          (case lower_method v of
             Inl e \<Rightarrow> Inl e
           | Inr s \<Rightarrow>
               (case key_tuple_of dic keys of
                  Inl e \<Rightarrow> Inl e
                | Inr t \<Rightarrow> Inr (s # t))))"

definition key_extractor :: "pydict \<Rightarrow> py_error + string list" where
  "key_extractor dic = key_tuple_of dic key_fields"

definition default_key :: "string list" where
  "default_key = [''allow'', ''any'', ''any'', ''any'', ''any'', ''any'']"

text \<open>
  The first loop, over \<^verbatim>\<open>existing_rules\<close>; the state is \<^verbatim>\<open>(combined_list, seen)\<close>.
  The default rule is skipped by \<^verbatim>\<open>continue\<close>; every other rule is recorded and
  appended, whether or not its key was seen before.
\<close>

fun existing_loop ::
  "pydict list \<Rightarrow> pydict list \<times> string list set \<Rightarrow> py_error + (pydict list \<times> string list set)" where
  "existing_loop [] st = Inr st"
| "existing_loop (rule # rest) (combined_list, seen) =
     (case key_extractor rule of
        Inl e \<Rightarrow> Inl e
      | Inr key_tuple \<Rightarrow>
          if key_tuple = default_key then existing_loop rest (combined_list, seen)
          else existing_loop rest (combined_list @ [rule], insert key_tuple seen))"

text \<open>The second loop, over \<^verbatim>\<open>new_rules\<close>: a rule is appended only if its key is new.\<close>

fun new_loop ::
  "pydict list \<Rightarrow> pydict list \<times> string list set \<Rightarrow> py_error + (pydict list \<times> string list set)" where
  "new_loop [] st = Inr st"
| "new_loop (rule # rest) (combined_list, seen) =
     (case key_extractor rule of
        Inl e \<Rightarrow> Inl e
      | Inr key_tuple \<Rightarrow>
          if key_tuple \<notin> seen then new_loop rest (combined_list @ [rule], insert key_tuple seen)
          else new_loop rest (combined_list, seen))"

definition combine_lists :: "pydict list \<Rightarrow> pydict list \<Rightarrow> py_error + pydict list" where
  "combine_lists existing_rules new_rules =
     (case existing_loop existing_rules ([], {}) of
        Inl e \<Rightarrow> Inl e
      | Inr st \<Rightarrow>
          (case new_loop new_rules st of
             Inl e \<Rightarrow> Inl e
           | Inr (combined_list, seen) \<Rightarrow> Inr combined_list))"

section \<open>The reference index and the API wrapper: meraki_api.py\<close>

text \<open>
  The Meraki SDK and the dashboard behind it are not part of the repository. They are a
  parameter of the model: the record \<open>env\<close> holds, for each SDK operation the wrapper
  calls, a function that answers the call from the calls made so far, with an error or a
  result. An error is a \<^verbatim>\<open>meraki.APIError\<close> with its status and text, or any other
  exception of the SDK with its text. Identifiers are strings, as the dashboard returns
  them; the response of a creation is modelled by the identifier it carries
  (\<^verbatim>\<open>response['id']\<close>), the response of a rule fetch by its \<^verbatim>\<open>response['rules']\<close>.
  \<open>env\<close> also holds what else the run reads: the two CSV files (\<open>None\<close> when the file
  does not exist), the answer to the overwrite prompt and \<^verbatim>\<open>c.NETWORK_NAMES\<close>.
\<close>

datatype api_error = APIError string string | SDKError string

record network =
  net_id :: string
  net_name :: string
  productTypes :: "string list"

datatype call =
    CreateObject pydict
  | CreateGroup pydict
  | ListNetworks
  | GetRules string
  | UpdateRules string "pydict list"

type_synonym event = "call \<times> bool"

record env =
  policy_objects_csv :: "pydict list option"
  l3_outbound_rules_csv :: "pydict list option"
  overwrite_answer :: bool
  NETWORK_NAMES :: "string list"
  getOrganizationPolicyObjects :: "(string \<times> string) list"
  getOrganizationPolicyObjectsGroups :: "(string \<times> string) list"
  createOrganizationPolicyObject :: "event list \<Rightarrow> pydict \<Rightarrow> api_error + string"
  createOrganizationPolicyObjectsGroup :: "event list \<Rightarrow> pydict \<Rightarrow> api_error + string"
  getOrganizationNetworks :: "event list \<Rightarrow> api_error + network list"
  getNetworkApplianceFirewallL3FirewallRules :: "event list \<Rightarrow> string \<Rightarrow> api_error + pydict list"
  updateNetworkApplianceFirewallL3FirewallRules ::
    "event list \<Rightarrow> string \<Rightarrow> pydict list \<Rightarrow> api_error + unit"

text \<open>
  What \<^verbatim>\<open>lm.lnp\<close> and \<^verbatim>\<open>lm.print_error\<close> report, one constructor for each message of
  main.py.
\<close>

datatype log_msg =
    ReadObjects nat
  | ObjectFileNotFound
  | GroupError pyval string string
  | GroupCreated string
  | ObjectError pyval string string
  | ObjectCreated string
  | ReadRules nat
  | RulesFileNotFound
  | NetworksError string string
  | NetworksFound "string list"
  | GetRulesError string string string
  | ApplyError string string string
  | ApplySuccess string

text \<open>
  The state of a run: the two dictionaries of the \<^verbatim>\<open>MERAKI_API\<close> singleton, keyed by
  the name (a string, or \<^verbatim>\<open>None\<close> from a short CSV row), and, to state properties of a
  run, the SDK calls made so far with their success and the messages logged so far.
\<close>

record state =
  policy_objects_name_to_id :: "pyval \<rightharpoonup> string"
  policy_group_objects_name_to_id :: "pyval \<rightharpoonup> string"
  calls :: "event list"
  log :: "log_msg list"

definition add_call :: "call \<Rightarrow> bool \<Rightarrow> state \<Rightarrow> state" where
  "add_call c ok st = st\<lparr>calls := calls st @ [(c, ok)]\<rparr>"

definition lnp :: "log_msg \<Rightarrow> state \<Rightarrow> state" where
  "lnp m st = st\<lparr>log := log st @ [m]\<rparr>"

text \<open>A list cannot be a dictionary key: looking it up or storing under it raises \<^verbatim>\<open>TypeError\<close>.\<close>

fun hashable :: "pyval \<Rightarrow> bool" where
  "hashable (PyList vs) = False"
| "hashable v = True"

text \<open>
  \<^verbatim>\<open>MERAKI_API.__init__\<close>: the two dictionaries are filled from the catalog of the
  organization, a later entry of one name replacing an earlier one. The two listings are
  taken to succeed: they run when the module is imported, before \<^verbatim>\<open>main\<close>.
\<close>

definition MERAKI_API_init :: "env \<Rightarrow> state" where
  "MERAKI_API_init e =
     \<lparr>policy_objects_name_to_id =
        fold (\<lambda>(name, ident) m. m(Str name \<mapsto> ident)) (getOrganizationPolicyObjects e) Map.empty,
      policy_group_objects_name_to_id =
        fold (\<lambda>(name, ident) m. m(Str name \<mapsto> ident)) (getOrganizationPolicyObjectsGroups e) Map.empty,
      calls = [],
      log = []\<rparr>"

text \<open>The \<^verbatim>\<open>(error, response)\<close> of a failed call: \<^verbatim>\<open>(e.status, str(e))\<close> or \<^verbatim>\<open>("500", str(e))\<close>.\<close>

fun error_tuple :: "api_error \<Rightarrow> string \<times> string" where
  "error_tuple (APIError status msg) = (status, msg)"
| "error_tuple (SDKError msg) = (''500'', msg)"

text \<open>
  \<^verbatim>\<open>get_org_appliance_networks\<close>. The result of a wrapper is \<open>Inl (error, response)\<close>
  when it returns an error code and the text, \<open>Inr response\<close> when it returns
  \<^verbatim>\<open>(None, response)\<close>. The callers test \<^verbatim>\<open>if error:\<close>; an error code (an HTTP
  status, or \<^verbatim>\<open>"500"\<close>) is taken to be true there.
\<close>

definition get_org_appliance_networks :: "env \<Rightarrow> state \<Rightarrow> ((string \<times> string) + network list) \<times> state" where
  "get_org_appliance_networks e st =
     (case getOrganizationNetworks e (calls st) of
        Inl err \<Rightarrow> (Inl (error_tuple err), add_call ListNetworks False st)
      | Inr response \<Rightarrow>
          (Inr (if length (NETWORK_NAMES e) > 0
                then filter (\<lambda>network. ''appliance'' \<in> set (productTypes network) \<and>
                                      net_name network \<in> set (NETWORK_NAMES e)) response
                else filter (\<lambda>network. ''appliance'' \<in> set (productTypes network)) response),
           add_call ListNetworks True st))"

text \<open>
  \<^verbatim>\<open>create_policy_objects\<close>. After the SDK call has succeeded the name is registered;
  a payload without \<^verbatim>\<open>name\<close>, or with a name that cannot be a key, raises there, and
  \<^verbatim>\<open>except Exception\<close> turns that into the error \<^verbatim>\<open>"500"\<close>.
\<close>

definition create_policy_objects :: "env \<Rightarrow> pydict \<Rightarrow> state \<Rightarrow> ((string \<times> string) + string) \<times> state" where
  "create_policy_objects e policy_object_config st =
     (case createOrganizationPolicyObject e (calls st) policy_object_config of
        Inl err \<Rightarrow> (Inl (error_tuple err), add_call (CreateObject policy_object_config) False st)
      | Inr response_id \<Rightarrow>
          (let st1 = add_call (CreateObject policy_object_config) True st in
           case map_of policy_object_config ''name'' of
             None \<Rightarrow> (Inl (''500'', ''KeyError: name''), st1)
           | Some name \<Rightarrow>
               if hashable name
               then (Inr response_id,
                     st1\<lparr>policy_objects_name_to_id := (policy_objects_name_to_id st1)(name \<mapsto> response_id)\<rparr>)
               else (Inl (''500'', ''TypeError: unhashable type''), st1)))"

text \<open>\<^verbatim>\<open>create_policy_object_groups\<close>, the same for groups.\<close>

definition create_policy_object_groups :: "env \<Rightarrow> pydict \<Rightarrow> state \<Rightarrow> ((string \<times> string) + string) \<times> state" where
  "create_policy_object_groups e policy_object_group_config st =
     (case createOrganizationPolicyObjectsGroup e (calls st) policy_object_group_config of
        Inl err \<Rightarrow> (Inl (error_tuple err), add_call (CreateGroup policy_object_group_config) False st)
      | Inr response_id \<Rightarrow>
          (let st1 = add_call (CreateGroup policy_object_group_config) True st in
           case map_of policy_object_group_config ''name'' of
             None \<Rightarrow> (Inl (''500'', ''KeyError: name''), st1)
           | Some name \<Rightarrow>
               if hashable name
               then (Inr response_id,
                     st1\<lparr>policy_group_objects_name_to_id :=
                           (policy_group_objects_name_to_id st1)(name \<mapsto> response_id)\<rparr>)
               else (Inl (''500'', ''TypeError: unhashable type''), st1)))"

text \<open>\<^verbatim>\<open>get_l3_outbound_rules\<close> and \<^verbatim>\<open>update_l3_outbound_rules\<close>.\<close>

definition get_l3_outbound_rules :: "env \<Rightarrow> string \<Rightarrow> state \<Rightarrow> ((string \<times> string) + pydict list) \<times> state" where
  "get_l3_outbound_rules e network_id st =
     (case getNetworkApplianceFirewallL3FirewallRules e (calls st) network_id of
        Inl err \<Rightarrow> (Inl (error_tuple err), add_call (GetRules network_id) False st)
      | Inr rules \<Rightarrow> (Inr rules, add_call (GetRules network_id) True st))"

definition update_l3_outbound_rules ::
  "env \<Rightarrow> string \<Rightarrow> pydict list \<Rightarrow> state \<Rightarrow> ((string \<times> string) + unit) \<times> state" where
  "update_l3_outbound_rules e network_id l3_rules_list st =
     (case updateNetworkApplianceFirewallL3FirewallRules e (calls st) network_id l3_rules_list of
        Inl err \<Rightarrow> (Inl (error_tuple err), add_call (UpdateRules network_id l3_rules_list) False st)
      | Inr response \<Rightarrow> (Inr response, add_call (UpdateRules network_id l3_rules_list) True st))"

section \<open>The translator: \<^verbatim>\<open>translate_cidr_to_objects\<close> of main.py\<close>

text \<open>
  Objects are looked up first, groups second. The argument is the value of a CSV cell;
  the membership test raises \<^verbatim>\<open>TypeError\<close> on a value that cannot be a key.
\<close>

definition translate_cidr_to_objects :: "state \<Rightarrow> pyval \<Rightarrow> py_error + pyval" where
  "translate_cidr_to_objects st cidr =
     (if \<not> hashable cidr then Inl TypeError
      else case policy_objects_name_to_id st cidr of
             Some obj_id \<Rightarrow> Inr (Str (''OBJ('' @ obj_id @ '')''))
           | None \<Rightarrow>
               (case policy_group_objects_name_to_id st cidr of
                  Some obj_id \<Rightarrow> Inr (Str (''GRP('' @ obj_id @ '')''))
                | None \<Rightarrow> Inr cidr))"

section \<open>The driver: \<^verbatim>\<open>main\<close> of main.py\<close>

text \<open>
  A part of \<^verbatim>\<open>main\<close> returns the exception that ends the run, if one is raised and not
  caught, and the state reached.

  Creating the policy object of one row, and reporting the result. The error message
  reads \<^verbatim>\<open>policy_object['name']\<close>, which raises when the row has no such column.
\<close>

definition create_object_step :: "env \<Rightarrow> pydict \<Rightarrow> state \<Rightarrow> py_error option \<times> state" where
  "create_object_step e policy_object st =
     (case create_policy_objects e policy_object st of
        (Inl (error, response), st1) \<Rightarrow>
          (case map_of policy_object ''name'' of
             None \<Rightarrow> (Some (KeyError (Str ''name'')), st1)
           | Some name \<Rightarrow> (None, lnp (ObjectError name error response) st1))
      | (Inr response, st1) \<Rightarrow> (None, lnp (ObjectCreated response) st1))"

text \<open>
  The body of the loop of step 1 for one row. With a group name that is not registered
  the group is created first; when that fails the row is skipped (\<^verbatim>\<open>continue\<close>).
  Then the group column is deleted from the row, the identifier of the group is stored
  under \<^verbatim>\<open>groupIds\<close>, and the object is created.
\<close>

definition create_step :: "env \<Rightarrow> pydict \<Rightarrow> state \<Rightarrow> py_error option \<times> state" where
  "create_step e policy_object st =
     (case map_of policy_object ''_group_name'' of
        None \<Rightarrow> create_object_step e policy_object st
      | Some group_name \<Rightarrow>
          if group_name = Str '''' then create_object_step e policy_object st
          else if \<not> hashable group_name then (Some TypeError, st)
          else
            (case (if policy_group_objects_name_to_id st group_name = None
                   then (case create_policy_object_groups e
                                [(''name'', group_name), (''category'', Str ''NetworkObjectGroup'')] st of
                           (Inl (error, response), st1) \<Rightarrow>
                             (False, lnp (GroupError group_name error response) st1)
                         | (Inr response, st1) \<Rightarrow> (True, lnp (GroupCreated response) st1))
                   else (True, st)) of
               (False, st2) \<Rightarrow> (None, st2)
             | (True, st2) \<Rightarrow>
                 (case policy_group_objects_name_to_id st2 group_name of
                    None \<Rightarrow> (Some (KeyError group_name), st2)
                  | Some group_id \<Rightarrow>
                      create_object_step e
                        (AList.update ''groupIds'' (PyList [Str group_id])
                           (AList.delete ''_group_name'' policy_object)) st2)))"

fun create_loop :: "env \<Rightarrow> pydict list \<Rightarrow> state \<Rightarrow> py_error option \<times> state" where
  "create_loop e [] st = (None, st)"
| "create_loop e (policy_object # rest) st =
     (case create_step e policy_object st of
        (Some err, st1) \<Rightarrow> (Some err, st1)
      | (None, st1) \<Rightarrow> create_loop e rest st1)"

text \<open>The translation of the source and destination of one rule, and of the rule table.\<close>

definition translate_rule :: "state \<Rightarrow> pydict \<Rightarrow> py_error + pydict" where
  "translate_rule st rule =
     (case getitem rule ''srcCidr'' of
        Inl err \<Rightarrow> Inl err
      | Inr src \<Rightarrow>
          (case translate_cidr_to_objects st src of
             Inl err \<Rightarrow> Inl err
           | Inr src' \<Rightarrow>
               (let rule1 = AList.update ''srcCidr'' src' rule in
                case getitem rule1 ''destCidr'' of
                  Inl err \<Rightarrow> Inl err
                | Inr dest \<Rightarrow>
                    (case translate_cidr_to_objects st dest of
                       Inl err \<Rightarrow> Inl err
                     | Inr dest' \<Rightarrow> Inr (AList.update ''destCidr'' dest' rule1)))))"

fun translate_rules :: "state \<Rightarrow> pydict list \<Rightarrow> py_error + pydict list" where
  "translate_rules st [] = Inr []"
| "translate_rules st (rule # rest) =
     (case translate_rule st rule of
        Inl err \<Rightarrow> Inl err
      | Inr rule' \<Rightarrow>
          (case translate_rules st rest of
             Inl err \<Rightarrow> Inl err
           | Inr rest' \<Rightarrow> Inr (rule' # rest')))"

text \<open>Pushing a rule list to one network, and reporting the result.\<close>

definition apply_rules :: "env \<Rightarrow> network \<Rightarrow> pydict list \<Rightarrow> state \<Rightarrow> state" where
  "apply_rules e network l3_rules st =
     (case update_l3_outbound_rules e (net_id network) l3_rules st of
        (Inl (error, response), st1) \<Rightarrow> lnp (ApplyError (net_name network) error response) st1
      | (Inr response, st1) \<Rightarrow> lnp (ApplySuccess (net_name network)) st1)"

text \<open>
  The loop over the networks. The variable \<^verbatim>\<open>l3_rules\<close> is assigned the merged list
  inside the loop, so the next network is processed with the merged list of this one.
\<close>

fun networks_loop :: "env \<Rightarrow> bool \<Rightarrow> network list \<Rightarrow> pydict list \<Rightarrow> state \<Rightarrow> py_error option \<times> state" where
  "networks_loop e overwrite [] l3_rules st = (None, st)"
| "networks_loop e overwrite (network # rest) l3_rules st =
     (if \<not> overwrite then
        (case get_l3_outbound_rules e (net_id network) st of
           (Inl (error, response), st1) \<Rightarrow>
             networks_loop e overwrite rest l3_rules
               (lnp (GetRulesError (net_name network) error response) st1)
         | (Inr existing_rules, st1) \<Rightarrow>
             (case combine_lists existing_rules l3_rules of
                Inl err \<Rightarrow> (Some err, st1)
              | Inr merged \<Rightarrow>
                  networks_loop e overwrite rest merged (apply_rules e network merged st1)))
      else networks_loop e overwrite rest l3_rules (apply_rules e network l3_rules st))"

text \<open>
  \<^verbatim>\<open>main\<close>. When the listing of the networks fails the error is logged and the loop
  then runs over \<^verbatim>\<open>response\<close>, which is the text of the error: with a text that is
  not empty the first \<^verbatim>\<open>network['id']\<close> indexes a character by a string and raises
  \<^verbatim>\<open>TypeError\<close>.
\<close>

definition main :: "env \<Rightarrow> state \<Rightarrow> py_error option \<times> state" where
  "main e st =
     (case policy_objects_csv e of
        None \<Rightarrow> (None, lnp ObjectFileNotFound st)
      | Some policy_objects \<Rightarrow>
          (case create_loop e policy_objects (lnp (ReadObjects (length policy_objects)) st) of
             (Some err, st1) \<Rightarrow> (Some err, st1)
           | (None, st1) \<Rightarrow>
               (case l3_outbound_rules_csv e of
                  None \<Rightarrow> (None, lnp RulesFileNotFound st1)
                | Some rows \<Rightarrow>
                    (let st2 = lnp (ReadRules (length rows)) st1 in
                     case translate_rules st2 rows of
                       Inl err \<Rightarrow> (Some err, st2)
                     | Inr l3_rules \<Rightarrow>
                         (case get_org_appliance_networks e st2 of
                            (Inl (error, response), st3) \<Rightarrow>
                              (if response = [] then (None, lnp (NetworksError error response) st3)
                               else (Some TypeError, lnp (NetworksError error response) st3))
                          | (Inr networks, st3) \<Rightarrow>
                              networks_loop e (overwrite_answer e) networks l3_rules
                                (lnp (NetworksFound (map net_name networks)) st3))))))"

text \<open>A run of the program: the singleton is built, then \<^verbatim>\<open>main\<close> runs.\<close>

definition run :: "env \<Rightarrow> py_error option \<times> state" where
  "run e = main e (MERAKI_API_init e)"

section \<open>Predicates used to state the properties of the merge\<close>

text \<open>A rule carries a key field as a string.\<close>

definition is_str_field :: "pydict \<Rightarrow> string \<Rightarrow> bool" where
  "is_str_field dic key = (case map_of dic key of Some (Str s) \<Rightarrow> True | _ \<Rightarrow> False)"

text \<open>A rule carries all six key fields as strings.\<close>

definition has_key_fields :: "pydict \<Rightarrow> bool" where
  "has_key_fields dic = list_all (is_str_field dic) key_fields"

text \<open>The rules of the existing list that do not have the default key, in order.\<close>

definition kept_rules :: "pydict list \<Rightarrow> pydict list" where
  "kept_rules existing = filter (\<lambda>r. key_extractor r \<noteq> Inr default_key) existing"

text \<open>
  The positions of the incoming list whose key is neither in a given set of keys nor the
  key of an earlier incoming rule.
\<close>

definition fresh_indices :: "string list set \<Rightarrow> pydict list \<Rightarrow> nat list" where
  "fresh_indices seen incoming =
     filter (\<lambda>i. key_extractor (incoming ! i) \<notin> Inr ` seen \<union> key_extractor ` set (take i incoming))
       [0..<length incoming]"

text \<open>
  The incoming rules whose key is neither a kept existing rule's nor an earlier incoming
  rule's, in order.
\<close>

definition added_rules :: "pydict list \<Rightarrow> pydict list \<Rightarrow> pydict list" where
  "added_rules existing incoming =
     map ((!) incoming)
       (filter (\<lambda>i. key_extractor (incoming ! i) \<notin>
                  key_extractor ` (set (kept_rules existing) \<union> set (take i incoming)))
          [0..<length incoming])"



section \<open>Example rules\<close>

text \<open>
  The rules of the scenario of the specification, as the dictionaries the program
  handles, used to evaluate the definitions on concrete inputs.
\<close>

abbreviation l3_rule ::
  "string \<Rightarrow> string \<Rightarrow> string \<Rightarrow> string \<Rightarrow> string \<Rightarrow> string \<Rightarrow> string \<Rightarrow> pydict" where
  "l3_rule comment policy protocol srcCidr srcPort destCidr destPort \<equiv>
     [(''comment'', Str comment), (''policy'', Str policy), (''protocol'', Str protocol),
      (''srcCidr'', Str srcCidr), (''srcPort'', Str srcPort),
      (''destCidr'', Str destCidr), (''destPort'', Str destPort)]"

abbreviation rule_https :: pydict where
  "rule_https \<equiv> l3_rule ''web'' ''allow'' ''tcp'' ''any'' ''any'' ''10.0.0.0/8'' ''443''"


abbreviation rule_deny :: pydict where
  "rule_deny \<equiv> l3_rule ''lan'' ''deny'' ''any'' ''192.168.0.0/16'' ''any'' ''any'' ''any''"

abbreviation rule_default :: pydict where
  "rule_default \<equiv> l3_rule ''Default rule'' ''Allow'' ''Any'' ''Any'' ''Any'' ''Any'' ''Any''"

abbreviation rule_no_port :: pydict where
  "rule_no_port \<equiv> [(''policy'', Str ''deny''), (''protocol'', Str ''udp''), (''srcCidr'', Str ''any''),
      (''destCidr'', Str ''any''), (''srcPort'', Str ''any'')]"

abbreviation rule_none_port :: pydict where
  "rule_none_port \<equiv> [(''policy'', Str ''deny''), (''protocol'', Str ''udp''), (''srcCidr'', Str ''any''),
      (''destCidr'', Str ''any''), (''srcPort'', Str ''any''), (''destPort'', PyNone)]"

section \<open>Predicates used to state the properties of a run\<close>

text \<open>
  The name of the group a call asks the dashboard to create, if the call is a group
  creation; and whether a call is a creation of an object or a group.
\<close>

fun group_call_name :: "event \<Rightarrow> pyval option" where
  "group_call_name (CreateGroup config, ok) = map_of config ''name''"
| "group_call_name (c, ok) = None"


text \<open>
  The names of the groups that a list of calls has created.
\<close>

definition created_groups :: "event list \<Rightarrow> pyval set" where
  "created_groups evs = {g. \<exists>ev\<in>set evs. snd ev \<and> group_call_name ev = Some g}"

text \<open>
  Every group creation of a list of calls is for a name that is neither in the given
  set nor the name of a group an earlier call of the list has created.
\<close>

fun fresh_group_calls :: "pyval set \<Rightarrow> event list \<Rightarrow> bool" where
  "fresh_group_calls D [] = True"
| "fresh_group_calls D (ev # evs) =
     (case group_call_name ev of
        None \<Rightarrow> fresh_group_calls D evs
      | Some g \<Rightarrow> g \<notin> D \<and> fresh_group_calls (if snd ev then insert g D else D) evs)"

text \<open>
  A later state of a run: the calls made since then are group creations of new names
  only, the groups created since then are registered, no group has changed its
  identifier and no object name has been removed.
\<close>

definition extends :: "state \<Rightarrow> state \<Rightarrow> bool" where
  "extends st st' \<longleftrightarrow>
     (\<exists>new. calls st' = calls st @ new \<and>
            fresh_group_calls (dom (policy_group_objects_name_to_id st)) new \<and>
            dom (policy_group_objects_name_to_id st) \<union> created_groups new
              \<subseteq> dom (policy_group_objects_name_to_id st')) \<and>
     policy_group_objects_name_to_id st \<subseteq>\<^sub>m policy_group_objects_name_to_id st' \<and>
     dom (policy_objects_name_to_id st) \<subseteq> dom (policy_objects_name_to_id st')"


text \<open>
  A row of the object table that step 1 can process: it has a name, and its group
  name, if any, can be a dictionary key.
\<close>

definition row_ok :: "pydict \<Rightarrow> bool" where
  "row_ok policy_object \<longleftrightarrow>
     map_of policy_object ''name'' \<noteq> None \<and>
     (case map_of policy_object ''_group_name'' of None \<Rightarrow> True | Some g \<Rightarrow> hashable g)"

section \<open>Example runs\<close>

text \<open>
  Rows of the object table, the payloads the driver builds from them, a state of the
  reference index, and environments: an organization with two networks, one whose
  network listing fails, runs with a missing table, and runs that create groups.
\<close>

abbreviation object_row :: "string \<Rightarrow> string \<Rightarrow> string \<Rightarrow> pydict" where
  "object_row name cidr group_name \<equiv>
     [(''name'', Str name), (''category'', Str ''network''), (''type'', Str ''cidr''),
      (''cidr'', Str cidr), (''_group_name'', Str group_name)]"

abbreviation group_payload :: "string \<Rightarrow> pydict" where
  "group_payload name \<equiv> [(''name'', Str name), (''category'', Str ''NetworkObjectGroup'')]"

abbreviation grouped_object :: "string \<Rightarrow> string \<Rightarrow> string \<Rightarrow> pydict" where
  "grouped_object name cidr group_id \<equiv>
     [(''name'', Str name), (''category'', Str ''network''), (''type'', Str ''cidr''),
      (''cidr'', Str cidr), (''groupIds'', PyList [Str group_id])]"

abbreviation appliance_network :: "string \<Rightarrow> string \<Rightarrow> network" where
  "appliance_network ident name \<equiv> \<lparr>net_id = ident, net_name = name, productTypes = [''appliance'']\<rparr>"

abbreviation index_example :: state where
  "index_example \<equiv>
     \<lparr>policy_objects_name_to_id = [Str ''Web-Server'' \<mapsto> ''123'', Str ''Shared'' \<mapsto> ''5''],
      policy_group_objects_name_to_id = [Str ''Servers'' \<mapsto> ''7'', Str ''Shared'' \<mapsto> ''8''],
      calls = [],
      log = []\<rparr>"

abbreviation env_two_networks :: env where
  "env_two_networks \<equiv>
     \<lparr>policy_objects_csv = Some [],
      l3_outbound_rules_csv = Some [rule_deny],
      overwrite_answer = False,
      NETWORK_NAMES = [],
      getOrganizationPolicyObjects = [],
      getOrganizationPolicyObjectsGroups = [],
      createOrganizationPolicyObject = (\<lambda>cs config. Inr ''1''),
      createOrganizationPolicyObjectsGroup = (\<lambda>cs config. Inr ''2''),
      getOrganizationNetworks =
        (\<lambda>cs. Inr [appliance_network ''N_1'' ''branch 1'', appliance_network ''N_2'' ''branch 2'']),
      getNetworkApplianceFirewallL3FirewallRules =
        (\<lambda>cs network_id. Inr (if network_id = ''N_1'' then [rule_https] else [])),
      updateNetworkApplianceFirewallL3FirewallRules = (\<lambda>cs network_id rules. Inr ())\<rparr>"

abbreviation env_listing_fails :: env where
  "env_listing_fails \<equiv>
     \<lparr>policy_objects_csv = Some [],
      l3_outbound_rules_csv = Some [rule_deny],
      overwrite_answer = False,
      NETWORK_NAMES = [],
      getOrganizationPolicyObjects = [],
      getOrganizationPolicyObjectsGroups = [],
      createOrganizationPolicyObject = (\<lambda>cs config. Inr ''1''),
      createOrganizationPolicyObjectsGroup = (\<lambda>cs config. Inr ''2''),
      getOrganizationNetworks = (\<lambda>cs. Inl (APIError ''404'' ''Not Found'')),
      getNetworkApplianceFirewallL3FirewallRules = (\<lambda>cs network_id. Inr []),
      updateNetworkApplianceFirewallL3FirewallRules = (\<lambda>cs network_id rules. Inr ())\<rparr>"

abbreviation env_rules_missing :: env where
  "env_rules_missing \<equiv>
     \<lparr>policy_objects_csv = Some [object_row ''Web-Server'' ''10.1.1.10/32'' ''''],
      l3_outbound_rules_csv = None,
      overwrite_answer = False,
      NETWORK_NAMES = [],
      getOrganizationPolicyObjects = [],
      getOrganizationPolicyObjectsGroups = [],
      createOrganizationPolicyObject = (\<lambda>cs config. Inr ''123''),
      createOrganizationPolicyObjectsGroup = (\<lambda>cs config. Inr ''7''),
      getOrganizationNetworks = (\<lambda>cs. Inr []),
      getNetworkApplianceFirewallL3FirewallRules = (\<lambda>cs network_id. Inr []),
      updateNetworkApplianceFirewallL3FirewallRules = (\<lambda>cs network_id rules. Inr ())\<rparr>"


abbreviation env_group_fails :: env where
  "env_group_fails \<equiv>
     \<lparr>policy_objects_csv = Some [object_row ''Web-1'' ''10.1.1.10/32'' ''Servers'',
                                 object_row ''Web-2'' ''10.1.1.11/32'' ''Servers''],
      l3_outbound_rules_csv = None,
      overwrite_answer = False,
      NETWORK_NAMES = [],
      getOrganizationPolicyObjects = [],
      getOrganizationPolicyObjectsGroups = [],
      createOrganizationPolicyObject = (\<lambda>cs config. Inr ''123''),
      createOrganizationPolicyObjectsGroup = (\<lambda>cs config. Inl (APIError ''400'' ''Bad Request'')),
      getOrganizationNetworks = (\<lambda>cs. Inr []),
      getNetworkApplianceFirewallL3FirewallRules = (\<lambda>cs network_id. Inr []),
      updateNetworkApplianceFirewallL3FirewallRules = (\<lambda>cs network_id rules. Inr ())\<rparr>"

abbreviation env_groups :: env where
  "env_groups \<equiv>
     \<lparr>policy_objects_csv = Some [object_row ''Web-1'' ''10.1.1.10/32'' ''Servers'',
                                 object_row ''Web-2'' ''10.1.1.11/32'' ''Servers'',
                                 object_row ''Db-1'' ''10.1.2.10/32'' ''Existing''],
      l3_outbound_rules_csv = None,
      overwrite_answer = False,
      NETWORK_NAMES = [],
      getOrganizationPolicyObjects = [],
      getOrganizationPolicyObjectsGroups = [(''Existing'', ''9'')],
      createOrganizationPolicyObject = (\<lambda>cs config. Inr ''123''),
      createOrganizationPolicyObjectsGroup = (\<lambda>cs config. Inr ''7''),
      getOrganizationNetworks = (\<lambda>cs. Inr []),
      getNetworkApplianceFirewallL3FirewallRules = (\<lambda>cs network_id. Inr []),
      updateNetworkApplianceFirewallL3FirewallRules = (\<lambda>cs network_id rules. Inr ())\<rparr>"

abbreviation env_fetch_fails :: env where
  "env_fetch_fails \<equiv>
     \<lparr>policy_objects_csv = Some [],
      l3_outbound_rules_csv = Some [rule_deny],
      overwrite_answer = False,
      NETWORK_NAMES = [],
      getOrganizationPolicyObjects = [],
      getOrganizationPolicyObjectsGroups = [],
      createOrganizationPolicyObject = (\<lambda>cs config. Inr ''1''),
      createOrganizationPolicyObjectsGroup = (\<lambda>cs config. Inr ''2''),
      getOrganizationNetworks =
        (\<lambda>cs. Inr [appliance_network ''N_1'' ''branch 1'', appliance_network ''N_2'' ''branch 2'']),
      getNetworkApplianceFirewallL3FirewallRules =
        (\<lambda>cs network_id. if network_id = ''N_1'' then Inl (SDKError ''timeout'') else Inr [rule_https]),
      updateNetworkApplianceFirewallL3FirewallRules =
        (\<lambda>cs network_id rules. Inl (APIError ''400'' ''Bad Request''))\<rparr>"

section \<open>Key extraction succeeds exactly on rules with the six string fields\<close>

lemma key_tuple_of_Inr_iff:
  "(\<exists>t. key_tuple_of dic ks = Inr t) \<longleftrightarrow> list_all (is_str_field dic) ks"
proof (induction ks)
  case Nil
  show ?case by simp
next
  case (Cons k ks)
  show ?case
  proof (cases "map_of dic k")
    case None
    then show ?thesis by (simp add: getitem_def is_str_field_def)
  next
    case (Some v)
    then show ?thesis using Cons.IH
      by (cases v) (auto simp: getitem_def is_str_field_def split: sum.splits)
  qed
qed

lemma key_extractor_Inr_iff: "(\<exists>t. key_extractor r = Inr t) \<longleftrightarrow> has_key_fields r"
  by (simp add: key_extractor_def has_key_fields_def key_tuple_of_Inr_iff)

section \<open>What the two loops of the merge compute\<close>

lemma existing_loop_Inr:
  "list_all has_key_fields ex \<Longrightarrow>
   existing_loop ex (c, s) = Inr (c @ kept_rules ex, s \<union> Inr -` (key_extractor ` set (kept_rules ex)))"
proof (induction ex arbitrary: c s)
  case Nil
  show ?case by (simp add: kept_rules_def)
next
  case (Cons r ex)
  from Cons.prems obtain k where k: "key_extractor r = Inr k"
    using key_extractor_Inr_iff[of r] by auto
  from Cons.prems have ex: "list_all has_key_fields ex" by simp
  show ?case
  proof (cases "k = default_key")
    case True
    with k Cons.IH[OF ex] show ?thesis by (simp add: kept_rules_def)
  next
    case False
    with k Cons.IH[OF ex, of "c @ [r]" "insert k s"] show ?thesis
      by (auto simp: kept_rules_def)
  qed
qed

lemma new_loop_append:
  "new_loop (xs @ ys) st = (case new_loop xs st of Inl e \<Rightarrow> Inl e | Inr st' \<Rightarrow> new_loop ys st')"
proof (induction xs st rule: new_loop.induct)
  case (1 st)
  show ?case by simp
next
  case (2 rule rest combined_list seen)
  then show ?case by (simp split: sum.splits)
qed

lemma fresh_indices_snoc:
  "fresh_indices s (xs @ [x]) =
     fresh_indices s xs @
       (if key_extractor x \<notin> Inr ` s \<union> key_extractor ` set xs then [length xs] else [])"
proof -
  have "filter (\<lambda>i. key_extractor ((xs @ [x]) ! i) \<notin> Inr ` s \<union> key_extractor ` set (take i (xs @ [x])))
          [0..<length xs]
        = filter (\<lambda>i. key_extractor (xs ! i) \<notin> Inr ` s \<union> key_extractor ` set (take i xs)) [0..<length xs]"
    by (rule filter_cong) (auto simp: nth_append)
  then show ?thesis by (simp add: fresh_indices_def)
qed

lemma map_nth_fresh_snoc:
  "map ((!) (xs @ [x])) (fresh_indices s xs) = map ((!) xs) (fresh_indices s xs)"
  by (rule map_cong) (auto simp: fresh_indices_def nth_append)

lemma new_loop_Inr:
  "list_all has_key_fields new \<Longrightarrow>
   new_loop new (c, s) =
     Inr (c @ map ((!) new) (fresh_indices s new), s \<union> Inr -` (key_extractor ` set new))"
proof (induction new rule: rev_induct)
  case Nil
  show ?case by (simp add: fresh_indices_def)
next
  case (snoc x xs)
  from snoc.prems obtain k where k: "key_extractor x = Inr k"
    using key_extractor_Inr_iff[of x] by auto
  from snoc.prems have "list_all has_key_fields xs" by simp
  note IH = snoc.IH[OF this]
  have mem: "k \<in> s \<union> Inr -` (key_extractor ` set xs) \<longleftrightarrow>
             key_extractor x \<in> Inr ` s \<union> key_extractor ` set xs"
    using k by auto
  show ?case
  proof (cases "k \<in> s \<union> Inr -` (key_extractor ` set xs)")
    case True
    then have "key_extractor x \<in> Inr ` s \<union> key_extractor ` set xs" using mem by simp
    with True k IH show ?thesis
      by (auto simp: new_loop_append fresh_indices_snoc map_nth_fresh_snoc)
  next
    case False
    then have "key_extractor x \<notin> Inr ` s \<union> key_extractor ` set xs" using mem by simp
    with False k IH show ?thesis
      by (auto simp: new_loop_append fresh_indices_snoc map_nth_fresh_snoc)
  qed
qed

text \<open>A loop that returns has extracted the key of every rule it was given.\<close>

lemma existing_loop_Inr_wf:
  "existing_loop ex st = Inr st' \<Longrightarrow> list_all has_key_fields ex"
proof (induction ex st rule: existing_loop.induct)
  case (1 st)
  show ?case by simp
next
  case (2 rule rest combined_list seen)
  from "2.prems" obtain k where k: "key_extractor rule = Inr k"
    by (cases "key_extractor rule") auto
  then have "has_key_fields rule" using key_extractor_Inr_iff[of rule] by blast
  moreover have "list_all has_key_fields rest"
    using 2 k by (cases "k = default_key") auto
  ultimately show ?case by simp
qed

lemma new_loop_Inr_wf:
  "new_loop new st = Inr st' \<Longrightarrow> list_all has_key_fields new"
proof (induction new st rule: new_loop.induct)
  case (1 st)
  show ?case by simp
next
  case (2 rule rest combined_list seen)
  from "2.prems" obtain k where k: "key_extractor rule = Inr k"
    by (cases "key_extractor rule") auto
  then have "has_key_fields rule" using key_extractor_Inr_iff[of rule] by blast
  moreover have "list_all has_key_fields rest"
    using 2 k by (cases "k \<in> seen") auto
  ultimately show ?case by simp
qed

lemma Inr_keys_of_wf:
  "list_all has_key_fields rs \<Longrightarrow> Inr ` (Inr -` (key_extractor ` set rs)) = key_extractor ` set rs"
proof -
  assume "list_all has_key_fields rs"
  then have "\<forall>r\<in>set rs. \<exists>k. key_extractor r = Inr k"
    using key_extractor_Inr_iff by (auto simp: list_all_iff)
  then show ?thesis by force
qed

lemma kept_rules_wf: "list_all has_key_fields ex \<Longrightarrow> list_all has_key_fields (kept_rules ex)"
  by (simp add: kept_rules_def list_all_iff)

lemma added_rules_fresh:
  "list_all has_key_fields ex \<Longrightarrow>
   map ((!) new) (fresh_indices (Inr -` (key_extractor ` set (kept_rules ex))) new) = added_rules ex new"
proof -
  assume "list_all has_key_fields ex"
  then have "Inr ` (Inr -` (key_extractor ` set (kept_rules ex))) = key_extractor ` set (kept_rules ex)"
    by (rule Inr_keys_of_wf[OF kept_rules_wf])
  then show ?thesis
    unfolding fresh_indices_def added_rules_def image_Un by simp
qed

lemma combine_lists_Inr:
  assumes "list_all has_key_fields ex" "list_all has_key_fields new"
  shows "combine_lists ex new = Inr (kept_rules ex @ added_rules ex new)"
  using assms
  by (simp add: combine_lists_def existing_loop_Inr new_loop_Inr added_rules_fresh)

lemma combine_lists_Inr_wf:
  assumes "combine_lists ex new = Inr out"
  shows "list_all has_key_fields ex \<and> list_all has_key_fields new"
proof -
  from assms obtain st where st: "existing_loop ex ([], {}) = Inr st"
    by (cases "existing_loop ex ([], {})") (auto simp: combine_lists_def)
  with assms obtain st' where "new_loop new st = Inr st'"
    by (cases "new_loop new st") (auto simp: combine_lists_def)
  with st show ?thesis
    using existing_loop_Inr_wf new_loop_Inr_wf by blast
qed

section \<open>Keys of the appended rules\<close>



lemma added_rules_subset: "set (added_rules ex new) \<subseteq> set new"
  by (auto simp: added_rules_def)

section \<open>Lowering removes differences of letter case\<close>






section \<open>Properties of the merge\<close>

lemma wf_all_iff:
  "(\<forall>r\<in>set ex \<union> set new. has_key_fields r) \<longleftrightarrow>
   list_all has_key_fields ex \<and> list_all has_key_fields new"
  by (auto simp: list_all_iff)




text \<open>
  Claim C5, as the code has it. A default-key rule of the existing list is never carried
  over: the output is the existing list without its default-key rules, followed by rules
  of the incoming list, so every default-key rule of the output is a rule of the incoming
  list.
\<close>

theorem combine_lists_default_only_from_incoming:
  assumes "combine_lists existing incoming = Inr out"
  shows "(\<forall>r\<in>set out. key_extractor r = Inr default_key \<longrightarrow> r \<in> set incoming) \<and>
         (\<exists>added. out = filter (\<lambda>r. key_extractor r \<noteq> Inr default_key) existing @ added \<and>
                  set added \<subseteq> set incoming)"
proof -
  from combine_lists_Inr_wf[OF assms]
  have "combine_lists existing incoming = Inr (kept_rules existing @ added_rules existing incoming)"
    by (simp add: combine_lists_Inr)
  with assms have out: "out = kept_rules existing @ added_rules existing incoming" by simp
  have sub: "set (added_rules existing incoming) \<subseteq> set incoming" by (rule added_rules_subset)
  have "\<forall>r\<in>set out. key_extractor r = Inr default_key \<longrightarrow> r \<in> set incoming"
  proof (intro ballI impI)
    fix r assume "r \<in> set out" and k: "key_extractor r = Inr default_key"
    then consider "r \<in> set (kept_rules existing)" | "r \<in> set (added_rules existing incoming)"
      using out by auto
    then show "r \<in> set incoming"
    proof cases
      case 1
      with k show ?thesis by (simp add: kept_rules_def)
    next
      case 2
      with sub show ?thesis by blast
    qed
  qed
  moreover have "out = filter (\<lambda>r. key_extractor r \<noteq> Inr default_key) existing @ added_rules existing incoming"
    using out by (simp add: kept_rules_def)
  ultimately show ?thesis using sub by blast
qed

text \<open>An existing default rule and an incoming list without one: no default rule in the output.\<close>

theorem combine_lists_default_only_from_incoming_witness:
  "combine_lists [rule_https, rule_default] [rule_deny] = Inr [rule_https, rule_deny] \<and>
   list_all (\<lambda>r. key_extractor r \<noteq> Inr default_key) [rule_https, rule_deny]"
proof -
  have res: "combine_lists [rule_https, rule_default] [rule_deny] = Inr [rule_https, rule_deny]"
    by code_simp
  have inc: "\<forall>r\<in>set [rule_deny]. key_extractor r \<noteq> Inr default_key"
    by code_simp
  from combine_lists_default_only_from_incoming[OF res] inc
  have "\<forall>r\<in>set [rule_https, rule_deny]. key_extractor r \<noteq> Inr default_key"
    by blast
  then have "list_all (\<lambda>r. key_extractor r \<noteq> Inr default_key) [rule_https, rule_deny]"
    unfolding list_all_iff .
  with res show ?thesis by (rule conjI)
qed

text \<open>
  Claim C5 as stated fails: a default rule that is in the existing list and also in the
  incoming list is in the output.
\<close>

theorem combine_lists_default_in_both:
  "combine_lists [rule_default] [rule_default] = Inr [rule_default] \<and>
   key_extractor rule_default = Inr default_key"
  by code_simp

text \<open>
  Claim C9. The merge returns a list exactly when every rule of both lists carries the
  six key fields as strings; on any other input key extraction fails and the merge raises.
\<close>

theorem combine_lists_total_iff:
  "(\<exists>out. combine_lists existing incoming = Inr out) \<longleftrightarrow>
   (\<forall>r\<in>set existing \<union> set incoming. has_key_fields r)"
proof
  assume "\<exists>out. combine_lists existing incoming = Inr out"
  then show "\<forall>r\<in>set existing \<union> set incoming. has_key_fields r"
    using combine_lists_Inr_wf by (auto simp: wf_all_iff)
next
  assume "\<forall>r\<in>set existing \<union> set incoming. has_key_fields r"
  then show "\<exists>out. combine_lists existing incoming = Inr out"
    by (simp add: wf_all_iff combine_lists_Inr)
qed

text \<open>
  A rule without \<^verbatim>\<open>destPort\<close> raises \<^verbatim>\<open>KeyError\<close>, a rule whose \<^verbatim>\<open>destPort\<close> is
  \<^verbatim>\<open>None\<close> raises \<^verbatim>\<open>AttributeError\<close>, and two well-formed lists are merged.
\<close>

theorem combine_lists_total_iff_witness:
  "(\<exists>out. combine_lists [rule_https] [rule_deny] = Inr out) \<and>
   \<not> has_key_fields rule_no_port \<and>
   combine_lists [rule_https] [rule_no_port] = Inl (KeyError (Str ''destPort'')) \<and>
   \<not> has_key_fields rule_none_port \<and>
   combine_lists [rule_none_port] [rule_deny] = Inl AttributeError"
proof -
  have "\<forall>r\<in>set [rule_https] \<union> set [rule_deny]. has_key_fields r" by code_simp
  then have "\<exists>out. combine_lists [rule_https] [rule_deny] = Inr out"
    using combine_lists_total_iff[of "[rule_https]" "[rule_deny]"] by blast
  moreover have "\<not> has_key_fields rule_no_port" by code_simp
  moreover have "combine_lists [rule_https] [rule_no_port] = Inl (KeyError (Str ''destPort''))" by code_simp
  moreover have "\<not> has_key_fields rule_none_port" by code_simp
  moreover have "combine_lists [rule_none_port] [rule_deny] = Inl AttributeError" by code_simp
  ultimately show ?thesis by blast
qed

text \<open>
  Claim C10. The default rule is skipped in the existing list only: when the incoming
  list has a rule with the default key, the first such rule is in the output, whatever
  the existing list holds.
\<close>

theorem combine_lists_incoming_default_kept:
  assumes wf: "\<forall>r\<in>set existing \<union> set incoming. has_key_fields r"
    and d: "find (\<lambda>r. key_extractor r = Inr default_key) incoming = Some d"
  shows "\<exists>out. combine_lists existing incoming = Inr out \<and> d \<in> set out \<and>
               key_extractor d = Inr default_key"
proof -
  from d obtain i where i: "i < length incoming" "key_extractor (incoming ! i) = Inr default_key"
    "d = incoming ! i" "\<forall>j<i. key_extractor (incoming ! j) \<noteq> Inr default_key"
    unfolding find_Some_iff by blast
  have "key_extractor (incoming ! i) \<notin> key_extractor ` set (kept_rules existing)"
    using i(2) by (auto simp: kept_rules_def)
  moreover have "key_extractor (incoming ! i) \<notin> key_extractor ` set (take i incoming)"
  proof
    assume "key_extractor (incoming ! i) \<in> key_extractor ` set (take i incoming)"
    then obtain r where r: "r \<in> set (take i incoming)" "key_extractor r = Inr default_key"
      using i(2) by auto
    then obtain j where "j < length (take i incoming)" "take i incoming ! j = r"
      unfolding in_set_conv_nth by blast
    then have "j < i" "incoming ! j = r" by simp_all
    with r(2) i(4) show False by blast
  qed
  ultimately have "i \<in> set (filter (\<lambda>i. key_extractor (incoming ! i) \<notin>
                  key_extractor ` (set (kept_rules existing) \<union> set (take i incoming)))
          [0..<length incoming])"
    using i(1) by (simp add: image_Un)
  then have "d \<in> set (added_rules existing incoming)"
    unfolding added_rules_def i(3) set_map by (rule imageI)
  moreover from wf have "combine_lists existing incoming = Inr (kept_rules existing @ added_rules existing incoming)"
    by (simp add: wf_all_iff combine_lists_Inr)
  ultimately show ?thesis using i(2,3) by simp
qed

text \<open>The existing default rule is dropped and the incoming one is appended.\<close>

theorem combine_lists_incoming_default_kept_witness:
  "combine_lists [rule_https, rule_default] [rule_deny, rule_default] =
     Inr [rule_https, rule_deny, rule_default] \<and>
   key_extractor rule_default = Inr default_key"
proof -
  have wf: "\<forall>r\<in>set [rule_https, rule_default] \<union> set [rule_deny, rule_default]. has_key_fields r"
    by code_simp
  have f: "find (\<lambda>r. key_extractor r = Inr default_key) [rule_deny, rule_default] = Some rule_default"
    by code_simp
  from combine_lists_incoming_default_kept[OF wf f]
  have k: "key_extractor rule_default = Inr default_key" by blast
  have "combine_lists [rule_https, rule_default] [rule_deny, rule_default] =
     Inr [rule_https, rule_deny, rule_default]"
    by code_simp
  with k show ?thesis by blast
qed

section \<open>The translator\<close>

text \<open>
  Claim C6. For every address string and every state of the reference index: a string
  that is the name of a known policy object is translated to \<^verbatim>\<open>OBJ(id)\<close> with the
  identifier of the object, whether or not a group has the same name; a string that is
  not an object name and is the name of a known group is translated to \<^verbatim>\<open>GRP(id)\<close>;
  every other string is returned unchanged.
\<close>

theorem translate_cidr_to_objects_lookup:
  "(policy_objects_name_to_id st (Str s) = Some obj_id \<longrightarrow>
      translate_cidr_to_objects st (Str s) = Inr (Str (''OBJ('' @ obj_id @ '')''))) \<and>
   (policy_objects_name_to_id st (Str s) = None \<and> policy_group_objects_name_to_id st (Str s) = Some grp_id \<longrightarrow>
      translate_cidr_to_objects st (Str s) = Inr (Str (''GRP('' @ grp_id @ '')''))) \<and>
   (policy_objects_name_to_id st (Str s) = None \<and> policy_group_objects_name_to_id st (Str s) = None \<longrightarrow>
      translate_cidr_to_objects st (Str s) = Inr (Str s))"
  by (simp add: translate_cidr_to_objects_def)

text \<open>
  The scenario of the specification, a group name, a literal address, and a name that
  is both an object and a group.
\<close>

theorem translate_cidr_to_objects_lookup_witness:
  "translate_cidr_to_objects index_example (Str ''Web-Server'') = Inr (Str ''OBJ(123)'') \<and>
   translate_cidr_to_objects index_example (Str ''Servers'') = Inr (Str ''GRP(7)'') \<and>
   translate_cidr_to_objects index_example (Str ''10.1.1.0/24'') = Inr (Str ''10.1.1.0/24'') \<and>
   translate_cidr_to_objects index_example (Str ''Shared'') = Inr (Str ''OBJ(5)'')"
  using translate_cidr_to_objects_lookup[of index_example "''Web-Server''" "''123''"]
    translate_cidr_to_objects_lookup[of index_example "''Servers''" _ "''7''"]
    translate_cidr_to_objects_lookup[of index_example "''10.1.1.0/24''"]
    translate_cidr_to_objects_lookup[of index_example "''Shared''" "''5''"]
  by simp

section \<open>The calls of a run\<close>

lemma created_groups_simps [simp]:
  "created_groups [] = {}"
  "created_groups (a @ b) = created_groups a \<union> created_groups b"
  "created_groups [ev] = (if snd ev then set_option (group_call_name ev) else {})"
  by (auto simp: created_groups_def)

lemma created_groups_Cons:
  "created_groups (ev # evs) = (if snd ev then set_option (group_call_name ev) else {}) \<union> created_groups evs"
  using created_groups_simps(2)[of "[ev]" evs] by simp

lemma fresh_group_calls_antimono:
  "fresh_group_calls D evs \<Longrightarrow> D' \<subseteq> D \<Longrightarrow> fresh_group_calls D' evs"
proof (induction evs arbitrary: D D')
  case Nil
  show ?case by simp
next
  case (Cons ev evs)
  show ?case
  proof (cases "group_call_name ev")
    case None
    with Cons show ?thesis by simp
  next
    case (Some g)
    with Cons.prems have g: "g \<notin> D" and rest: "fresh_group_calls (if snd ev then insert g D else D) evs"
      by simp_all
    have "(if snd ev then insert g D' else D') \<subseteq> (if snd ev then insert g D else D)"
      using Cons.prems(2) by auto
    from Cons.IH[OF rest this] g Cons.prems(2) Some show ?thesis by auto
  qed
qed

lemma fresh_group_calls_append:
  "fresh_group_calls D (a @ b) \<longleftrightarrow> fresh_group_calls D a \<and> fresh_group_calls (D \<union> created_groups a) b"
proof (induction a arbitrary: D)
  case Nil
  show ?case by simp
next
  case (Cons ev a)
  show ?case
  proof (cases "group_call_name ev")
    case None
    then show ?thesis using Cons.IH[of D] by (simp add: created_groups_Cons)
  next
    case (Some g)
    show ?thesis
    proof (cases "snd ev")
      case True
      have "insert g D \<union> created_groups a = D \<union> ({g} \<union> created_groups a)" by auto
      with True Some show ?thesis using Cons.IH[of "insert g D"] by (simp add: created_groups_Cons)
    next
      case False
      with Some show ?thesis using Cons.IH[of D] by (simp add: created_groups_Cons)
    qed
  qed
qed

lemma fresh_group_calls_no_groups:
  "\<forall>ev\<in>set evs. group_call_name ev = None \<Longrightarrow> fresh_group_calls D evs"
  by (induction evs) simp_all

lemma fresh_group_calls_not_registered:
  "fresh_group_calls D evs \<Longrightarrow> ev \<in> set evs \<Longrightarrow> group_call_name ev = Some g \<Longrightarrow> g \<notin> D"
proof (induction evs arbitrary: D)
  case Nil
  then show ?case by simp
next
  case (Cons a evs)
  show ?case
  proof (cases "ev = a")
    case True
    with Cons.prems show ?thesis by simp
  next
    case False
    with Cons.prems have mem: "ev \<in> set evs" by simp
    show ?thesis
    proof (cases "group_call_name a")
      case None
      with Cons.prems have "fresh_group_calls D evs" by simp
      from Cons.IH[OF this mem Cons.prems(3)] show ?thesis .
    next
      case (Some h)
      with Cons.prems have "fresh_group_calls (if snd a then insert h D else D) evs" by simp
      from Cons.IH[OF this mem Cons.prems(3)] show ?thesis by (auto split: if_splits)
    qed
  qed
qed

lemma fresh_group_calls_after_success:
  assumes f: "fresh_group_calls D evs" and ij: "i < j" "j < length evs"
    and ok: "snd (evs ! i)" and g: "group_call_name (evs ! i) = Some g"
  shows "group_call_name (evs ! j) \<noteq> Some g"
proof
  assume gj: "group_call_name (evs ! j) = Some g"
  from ij have i: "i < length evs" by simp
  have split: "evs = take i evs @ (evs ! i # drop (Suc i) evs)"
    using i by (simp add: id_take_nth_drop[symmetric])
  from f have "fresh_group_calls (D \<union> created_groups (take i evs)) (evs ! i # drop (Suc i) evs)"
    using fresh_group_calls_append[of D "take i evs" "evs ! i # drop (Suc i) evs"] split by simp
  with ok g have rest: "fresh_group_calls (insert g (D \<union> created_groups (take i evs))) (drop (Suc i) evs)"
    by simp
  have "evs ! j = drop (Suc i) evs ! (j - Suc i)" using ij by simp
  moreover have "j - Suc i < length (drop (Suc i) evs)" using ij by simp
  ultimately have "evs ! j \<in> set (drop (Suc i) evs)" using nth_mem by metis
  from fresh_group_calls_not_registered[OF rest this gj] show False by simp
qed

lemma extends_refl: "extends st st"
  unfolding extends_def by (intro conjI exI[of _ "[]"]) simp_all

lemma extends_trans:
  assumes "extends st st1" "extends st1 st2"
  shows "extends st st2"
proof -
  from assms(1) obtain a where a: "calls st1 = calls st @ a"
    "fresh_group_calls (dom (policy_group_objects_name_to_id st)) a"
    "dom (policy_group_objects_name_to_id st) \<union> created_groups a \<subseteq> dom (policy_group_objects_name_to_id st1)"
    unfolding extends_def by blast
  from assms(2) obtain b where b: "calls st2 = calls st1 @ b"
    "fresh_group_calls (dom (policy_group_objects_name_to_id st1)) b"
    "dom (policy_group_objects_name_to_id st1) \<union> created_groups b \<subseteq> dom (policy_group_objects_name_to_id st2)"
    unfolding extends_def by blast
  have "fresh_group_calls (dom (policy_group_objects_name_to_id st) \<union> created_groups a) b"
    by (rule fresh_group_calls_antimono[OF b(2) a(3)])
  with a(2) have "fresh_group_calls (dom (policy_group_objects_name_to_id st)) (a @ b)"
    by (simp add: fresh_group_calls_append)
  moreover have "calls st2 = calls st @ (a @ b)" using a(1) b(1) by simp
  moreover have "dom (policy_group_objects_name_to_id st) \<union> created_groups (a @ b)
       \<subseteq> dom (policy_group_objects_name_to_id st2)"
    using a(3) b(3) unfolding created_groups_simps by blast
  moreover have "policy_group_objects_name_to_id st \<subseteq>\<^sub>m policy_group_objects_name_to_id st2"
    using assms unfolding extends_def by (blast intro: map_le_trans)
  moreover have "dom (policy_objects_name_to_id st) \<subseteq> dom (policy_objects_name_to_id st2)"
    using assms unfolding extends_def by blast
  ultimately show ?thesis unfolding extends_def by blast
qed

lemma extends_lnp: "extends st (lnp m st)"
  unfolding extends_def lnp_def by (intro conjI exI[of _ "[]"]) simp_all

lemma extends_call_no_group:
  assumes "group_call_name (c, ok) = None"
  shows "extends st (add_call c ok st)"
proof -
  have "created_groups [(c, ok)] = {}" using assms by (cases ok) simp_all
  moreover have "fresh_group_calls (dom (policy_group_objects_name_to_id st)) [(c, ok)]"
    using assms by simp
  ultimately show ?thesis
    unfolding extends_def add_call_def
    by (intro conjI exI[of _ "[(c, ok)]"]) simp_all
qed

lemma extends_register_object:
  "extends st (st\<lparr>policy_objects_name_to_id := (policy_objects_name_to_id st)(n \<mapsto> i)\<rparr>)"
  unfolding extends_def by (intro conjI exI[of _ "[]"]) auto

subsection \<open>The wrappers\<close>

lemma create_policy_objects_extends:
  assumes "create_policy_objects e config st = (r, st')"
  shows "extends st st'"
proof -
  have base: "extends st (add_call (CreateObject config) ok st)" for ok
    by (rule extends_call_no_group) simp
  show ?thesis
  proof (cases "createOrganizationPolicyObject e (calls st) config")
    case (Inl err)
    with assms have "st' = add_call (CreateObject config) False st"
      by (simp add: create_policy_objects_def)
    with base show ?thesis by simp
  next
    case (Inr ident)
    show ?thesis
    proof (cases "map_of config ''name''")
      case None
      with Inr assms have "st' = add_call (CreateObject config) True st"
        by (simp add: create_policy_objects_def Let_def)
      with base show ?thesis by simp
    next
      case (Some name)
      show ?thesis
      proof (cases "hashable name")
        case True
        with Some Inr assms have "st' = (add_call (CreateObject config) True st)
            \<lparr>policy_objects_name_to_id :=
               (policy_objects_name_to_id (add_call (CreateObject config) True st))(name \<mapsto> ident)\<rparr>"
          by (simp add: create_policy_objects_def Let_def)
        then show ?thesis
          using extends_trans[OF base extends_register_object] by simp
      next
        case False
        with Some Inr assms have "st' = add_call (CreateObject config) True st"
          by (simp add: create_policy_objects_def Let_def)
        with base show ?thesis by simp
      qed
    qed
  qed
qed

lemma create_policy_object_groups_result:
  assumes "map_of config ''name'' = Some g" "hashable g"
  shows "create_policy_object_groups e config st =
     (case createOrganizationPolicyObjectsGroup e (calls st) config of
        Inl err \<Rightarrow> (Inl (error_tuple err), add_call (CreateGroup config) False st)
      | Inr ident \<Rightarrow>
          (Inr ident, (add_call (CreateGroup config) True st)
             \<lparr>policy_group_objects_name_to_id := (policy_group_objects_name_to_id st)(g \<mapsto> ident)\<rparr>))"
  using assms by (simp add: create_policy_object_groups_def Let_def add_call_def split: sum.splits)

lemma create_policy_object_groups_extends:
  assumes "map_of config ''name'' = Some g" "hashable g"
    and new: "policy_group_objects_name_to_id st g = None"
    and res: "create_policy_object_groups e config st = (r, st')"
  shows "extends st st'"
proof (cases "createOrganizationPolicyObjectsGroup e (calls st) config")
  case (Inl err)
  with res have st': "st' = add_call (CreateGroup config) False st"
    by (simp add: create_policy_object_groups_result[OF assms(1,2)])
  have "fresh_group_calls (dom (policy_group_objects_name_to_id st)) [(CreateGroup config, False)]"
    using assms(1) new by (simp add: domIff)
  then show ?thesis
    unfolding extends_def st' add_call_def
    by (intro conjI exI[of _ "[(CreateGroup config, False)]"]) simp_all
next
  case (Inr ident)
  with res have st': "st' = (add_call (CreateGroup config) True st)
             \<lparr>policy_group_objects_name_to_id := (policy_group_objects_name_to_id st)(g \<mapsto> ident)\<rparr>"
    by (simp add: create_policy_object_groups_result[OF assms(1,2)])
  have "fresh_group_calls (dom (policy_group_objects_name_to_id st)) [(CreateGroup config, True)]"
    using assms(1) new by (simp add: domIff)
  moreover have "policy_group_objects_name_to_id st \<subseteq>\<^sub>m (policy_group_objects_name_to_id st)(g \<mapsto> ident)"
    using new by (auto simp: map_le_def)
  ultimately show ?thesis
    unfolding extends_def st' add_call_def using assms(1)
    by (intro conjI exI[of _ "[(CreateGroup config, True)]"]) auto
qed

lemma create_policy_objects_calls:
  "create_policy_objects e config st = (r, st') \<Longrightarrow>
   \<exists>ok. calls st' = calls st @ [(CreateObject config, ok)]"
  by (auto simp: create_policy_objects_def add_call_def Let_def
      split: sum.splits option.splits if_splits)


lemma create_policy_objects_domains:
  "policy_group_objects_name_to_id (snd (create_policy_objects e config st)) =
     policy_group_objects_name_to_id st \<and>
   dom (policy_objects_name_to_id st) \<subseteq>
     dom (policy_objects_name_to_id (snd (create_policy_objects e config st)))"
  by (auto simp: create_policy_objects_def add_call_def Let_def
      split: sum.splits option.splits)

lemma create_policy_object_groups_domains:
  "policy_objects_name_to_id (snd (create_policy_object_groups e config st)) =
     policy_objects_name_to_id st \<and>
   dom (policy_group_objects_name_to_id st) \<subseteq>
     dom (policy_group_objects_name_to_id (snd (create_policy_object_groups e config st)))"
  by (auto simp: create_policy_object_groups_def add_call_def Let_def
      split: sum.splits option.splits)

lemma create_policy_objects_registers:
  assumes "createOrganizationPolicyObject e (calls st) config = Inr ident"
    "map_of config ''name'' = Some name" "hashable name"
  shows "fst (create_policy_objects e config st) = Inr ident"
    "policy_objects_name_to_id (snd (create_policy_objects e config st)) name = Some ident"
  using assms by (simp_all add: create_policy_objects_def add_call_def Let_def)

lemma create_policy_object_groups_registers:
  assumes "createOrganizationPolicyObjectsGroup e (calls st) config = Inr ident"
    "map_of config ''name'' = Some name" "hashable name"
  shows "fst (create_policy_object_groups e config st) = Inr ident"
    "policy_group_objects_name_to_id (snd (create_policy_object_groups e config st)) name = Some ident"
  using assms by (simp_all add: create_policy_object_groups_def add_call_def Let_def)

lemma get_org_appliance_networks_extends:
  "get_org_appliance_networks e st = (r, st') \<Longrightarrow> extends st st'"
  by (auto simp: get_org_appliance_networks_def extends_call_no_group split: sum.splits)

lemma get_l3_outbound_rules_extends:
  "get_l3_outbound_rules e network_id st = (r, st') \<Longrightarrow> extends st st'"
  by (auto simp: get_l3_outbound_rules_def extends_call_no_group split: sum.splits)

lemma update_l3_outbound_rules_extends:
  "update_l3_outbound_rules e network_id rules st = (r, st') \<Longrightarrow> extends st st'"
  by (auto simp: update_l3_outbound_rules_def extends_call_no_group split: sum.splits)

subsection \<open>Step 1: objects and groups\<close>

text \<open>
  A relation between states that holds across logging, across the creation of an object
  and across the creation of a group of a name that is not registered holds across the
  loop of step 1.
\<close>

lemma create_step_rel:
  assumes refl: "\<And>s. R s s"
    and trans: "\<And>a b c. R a b \<Longrightarrow> R b c \<Longrightarrow> R a c"
    and logged: "\<And>m s. R s (lnp m s)"
    and object: "\<And>config s r1 s1. create_policy_objects e config s = (r1, s1) \<Longrightarrow> R s s1"
    and group: "\<And>g s r1 s1. hashable g \<Longrightarrow> policy_group_objects_name_to_id s g = None \<Longrightarrow>
       create_policy_object_groups e [(''name'', g), (''category'', Str ''NetworkObjectGroup'')] s = (r1, s1)
       \<Longrightarrow> R s s1"
    and res: "create_step e policy_object st = (r, st')"
  shows "R st st'"
proof -
  have object_step: "R s s'" if "create_object_step e row s = (r', s')" for row s r' s'
  proof -
    obtain r1 s1 where w: "create_policy_objects e row s = (r1, s1)"
      by (cases "create_policy_objects e row s")
    then have e1: "R s s1" by (rule object)
    have "s' = s1 \<or> (\<exists>m. s' = lnp m s1)"
      using that w
      by (auto simp: create_object_step_def split: sum.splits option.splits prod.splits)
    then show ?thesis
      using e1 trans[OF e1 logged] by auto
  qed
  show ?thesis
  proof (cases "map_of policy_object ''_group_name''")
    case None
    with res show ?thesis by (simp add: create_step_def object_step)
  next
    case (Some group_name)
    note gn = this
    show ?thesis
    proof (cases "group_name = Str []")
      case True
      with gn res show ?thesis by (simp add: create_step_def object_step)
    next
      case nonempty: False
      show ?thesis
      proof (cases "hashable group_name")
        case False
        with gn nonempty res have "st' = st" by (simp add: create_step_def)
        then show ?thesis by (simp add: refl)
      next
        case h: True
        let ?payload = "[(''name'', group_name), (''category'', Str ''NetworkObjectGroup'')]"
        show ?thesis
        proof (cases "policy_group_objects_name_to_id st group_name")
          case (Some group_id)
          with gn nonempty h res
          have "create_object_step e (AList.update ''groupIds'' (PyList [Str group_id])
                   (AList.delete ''_group_name'' policy_object)) st = (r, st')"
            by (simp add: create_step_def)
          then show ?thesis by (rule object_step)
        next
          case None
          note unregistered = this
          obtain r1 st1 where w: "create_policy_object_groups e ?payload st = (r1, st1)"
            by (cases "create_policy_object_groups e ?payload st")
          have e1: "R st st1"
            by (rule group[OF h None w])
          show ?thesis
          proof (cases r1)
            case (Inl err)
            obtain error response where err: "err = (error, response)" by (cases err)
            with Inl w None gn nonempty h res
            have "st' = lnp (GroupError group_name error response) st1"
              by (simp add: create_step_def)
            with trans[OF e1 logged] show ?thesis by simp
          next
            case (Inr response)
            let ?st2 = "lnp (GroupCreated response) st1"
            have e2: "R st ?st2" by (rule trans[OF e1 logged])
            show ?thesis
            proof (cases "policy_group_objects_name_to_id ?st2 group_name")
              case None
              with Inr w unregistered gn nonempty h res
              have "st' = ?st2" by (simp add: create_step_def)
              with e2 show ?thesis by simp
            next
              case (Some group_id)
              with Inr w unregistered gn nonempty h res
              have "create_object_step e (AList.update ''groupIds'' (PyList [Str group_id])
                   (AList.delete ''_group_name'' policy_object)) ?st2 = (r, st')"
                by (simp add: create_step_def)
              then have "R ?st2 st'" by (rule object_step)
              with e2 show ?thesis by (rule trans)
            qed
          qed
        qed
      qed
    qed
  qed
qed

lemma create_loop_rel:
  assumes refl: "\<And>s. R s s"
    and trans: "\<And>a b c. R a b \<Longrightarrow> R b c \<Longrightarrow> R a c"
    and logged: "\<And>m s. R s (lnp m s)"
    and object: "\<And>config s r1 s1. create_policy_objects e config s = (r1, s1) \<Longrightarrow> R s s1"
    and group: "\<And>g s r1 s1. hashable g \<Longrightarrow> policy_group_objects_name_to_id s g = None \<Longrightarrow>
       create_policy_object_groups e [(''name'', g), (''category'', Str ''NetworkObjectGroup'')] s = (r1, s1)
       \<Longrightarrow> R s s1"
  shows "create_loop e rows st = (r, st') \<Longrightarrow> R st st'"
proof (induction rows arbitrary: st)
  case Nil
  then show ?case by (simp add: refl)
next
  case (Cons row rows)
  obtain r1 st1 where s: "create_step e row st = (r1, st1)"
    by (cases "create_step e row st")
  have e1: "R st st1"
    by (rule create_step_rel[of R, OF refl trans logged object group s])
  show ?case
  proof (cases r1)
    case None
    with s Cons.prems have "create_loop e rows st1 = (r, st')" by simp
    from trans[OF e1 Cons.IH[OF this]] show ?thesis .
  next
    case (Some err)
    with s Cons.prems have "st' = st1" by simp
    with e1 show ?thesis by simp
  qed
qed

lemma create_loop_extends:
  assumes "create_loop e rows st = (r, st')"
  shows "extends st st'"
proof (rule create_loop_rel[of extends, OF _ _ _ _ _ assms])
  show "extends s s" for s by (rule extends_refl)
  show "extends a c" if "extends a b" "extends b c" for a b c
    using that by (rule extends_trans)
  show "extends s (lnp m s)" for m s by (rule extends_lnp)
  show "extends s s1" if "create_policy_objects e config s = (r1, s1)" for config s r1 s1
    using that by (rule create_policy_objects_extends)
  show "extends s s1"
    if "hashable g" "policy_group_objects_name_to_id s g = None"
      "create_policy_object_groups e [(''name'', g), (''category'', Str ''NetworkObjectGroup'')] s = (r1, s1)"
    for g s r1 s1
    by (rule create_policy_object_groups_extends[OF _ that]) simp
qed



lemma create_object_step_calls:
  "\<exists>ok. calls (snd (create_object_step e row st)) = calls st @ [(CreateObject row, ok)]"
proof -
  obtain r1 st1 where w: "create_policy_objects e row st = (r1, st1)"
    by (cases "create_policy_objects e row st")
  from create_policy_objects_calls[OF w] obtain ok where
    ok: "calls st1 = calls st @ [(CreateObject row, ok)]" by blast
  have "calls (snd (create_object_step e row st)) = calls st1"
    using w by (auto simp: create_object_step_def lnp_def split: sum.splits option.splits prod.splits)
  with ok show ?thesis by auto
qed

subsection \<open>Step 2 and the whole run\<close>

lemma apply_rules_extends: "extends st (apply_rules e network rules st)"
proof -
  obtain r st1 where u: "update_l3_outbound_rules e (net_id network) rules st = (r, st1)"
    by (cases "update_l3_outbound_rules e (net_id network) rules st")
  then have e1: "extends st st1" by (rule update_l3_outbound_rules_extends)
  have "\<exists>m. apply_rules e network rules st = lnp m st1"
    using u by (auto simp: apply_rules_def split: sum.splits prod.splits)
  then show ?thesis using extends_trans[OF e1 extends_lnp] by auto
qed

lemma networks_loop_extends:
  "networks_loop e overwrite networks l3_rules st = (r, st') \<Longrightarrow> extends st st'"
proof (induction networks arbitrary: l3_rules st)
  case Nil
  then show ?case by (simp add: extends_refl)
next
  case (Cons network rest)
  show ?case
  proof (cases overwrite)
    case True
    with Cons.prems
    have "networks_loop e overwrite rest l3_rules (apply_rules e network l3_rules st) = (r, st')"
      by simp
    from extends_trans[OF apply_rules_extends Cons.IH[OF this]] show ?thesis .
  next
    case False
    obtain r1 st1 where g: "get_l3_outbound_rules e (net_id network) st = (r1, st1)"
      by (cases "get_l3_outbound_rules e (net_id network) st")
    then have e1: "extends st st1" by (rule get_l3_outbound_rules_extends)
    show ?thesis
    proof (cases r1)
      case (Inl err)
      obtain error response where "err = (error, response)" by (cases err)
      with Inl g False Cons.prems
      have "networks_loop e overwrite rest l3_rules
              (lnp (GetRulesError (net_name network) error response) st1) = (r, st')"
        by simp
      from extends_trans[OF extends_trans[OF e1 extends_lnp] Cons.IH[OF this]] show ?thesis .
    next
      case (Inr existing_rules)
      show ?thesis
      proof (cases "combine_lists existing_rules l3_rules")
        case (Inl err)
        with Inr g False Cons.prems have "st' = st1" by simp
        with e1 show ?thesis by simp
      next
        case merged: (Inr merged)
        with Inr g False Cons.prems
        have "networks_loop e overwrite rest merged (apply_rules e network merged st1) = (r, st')"
          by simp
        from extends_trans[OF extends_trans[OF e1 apply_rules_extends] Cons.IH[OF this]]
        show ?thesis .
      qed
    qed
  qed
qed

lemma main_extends: "extends st (snd (main e st))"
proof (cases "policy_objects_csv e")
  case None
  then show ?thesis by (simp add: main_def extends_lnp)
next
  case (Some policy_objects)
  note objs = this
  let ?st0 = "lnp (ReadObjects (length policy_objects)) st"
  obtain r1 st1 where c: "create_loop e policy_objects ?st0 = (r1, st1)"
    by (cases "create_loop e policy_objects ?st0")
  have e1: "extends st st1"
    by (rule extends_trans[OF extends_lnp create_loop_extends[OF c]])
  show ?thesis
  proof (cases r1)
    case (Some err)
    with c objs have "snd (main e st) = st1" by (simp add: main_def)
    with e1 show ?thesis by simp
  next
    case None
    note created = this
    show ?thesis
    proof (cases "l3_outbound_rules_csv e")
      case None
      with created c objs have "snd (main e st) = lnp RulesFileNotFound st1"
        by (simp add: main_def)
      with extends_trans[OF e1 extends_lnp] show ?thesis by simp
    next
      case (Some rows)
      note rules = this
      let ?st2 = "lnp (ReadRules (length rows)) st1"
      have e2: "extends st ?st2" by (rule extends_trans[OF e1 extends_lnp])
      show ?thesis
      proof (cases "translate_rules ?st2 rows")
        case (Inl err)
        with rules created c objs have "snd (main e st) = ?st2"
          by (simp add: main_def Let_def)
        with e2 show ?thesis by simp
      next
        case (Inr l3_rules)
        note translated = this
        obtain r3 st3 where n: "get_org_appliance_networks e ?st2 = (r3, st3)"
          by (cases "get_org_appliance_networks e ?st2")
        have e3: "extends st st3"
          by (rule extends_trans[OF e2 get_org_appliance_networks_extends[OF n]])
        show ?thesis
        proof (cases r3)
          case (Inl err)
          obtain error response where "err = (error, response)" by (cases err)
          with Inl n translated rules created c objs
          have "snd (main e st) = lnp (NetworksError error response) st3"
            by (simp add: main_def Let_def)
          with extends_trans[OF e3 extends_lnp] show ?thesis by simp
        next
          case (Inr networks)
          let ?st4 = "lnp (NetworksFound (map net_name networks)) st3"
          from Inr n translated rules created c objs
          have m: "main e st = networks_loop e (overwrite_answer e) networks l3_rules ?st4"
            by (simp add: main_def Let_def)
          have "extends ?st4 (snd (main e st))"
            by (rule networks_loop_extends[of e "overwrite_answer e" networks l3_rules ?st4 "fst (main e st)"])
               (simp add: m)
          from extends_trans[OF extends_trans[OF e3 extends_lnp] this] show ?thesis .
        qed
      qed
    qed
  qed
qed

lemma dom_fold_catalog:
  "dom (fold (\<lambda>(name, ident) m. m(Str name \<mapsto> ident)) catalog m0) = dom m0 \<union> Str ` fst ` set catalog"
  by (induction catalog arbitrary: m0) (auto split: prod.splits)

lemma run_fresh_group_calls:
  "fresh_group_calls (Str ` fst ` set (getOrganizationPolicyObjectsGroups e)) (calls (snd (run e)))"
proof -
  have "extends (MERAKI_API_init e) (snd (run e))"
    unfolding run_def by (rule main_extends)
  then obtain new where new: "calls (snd (run e)) = calls (MERAKI_API_init e) @ new"
    "fresh_group_calls (dom (policy_group_objects_name_to_id (MERAKI_API_init e))) new"
    unfolding extends_def by blast
  have "calls (MERAKI_API_init e) = []" by (simp add: MERAKI_API_init_def)
  moreover have "dom (policy_group_objects_name_to_id (MERAKI_API_init e)) =
      Str ` fst ` set (getOrganizationPolicyObjectsGroups e)"
    by (simp add: MERAKI_API_init_def dom_fold_catalog)
  ultimately show ?thesis using new by simp
qed

section \<open>Properties of a run\<close>

text \<open>
  Claim C7. A dictionary maps a name to one identifier. When the dashboard has created
  an object or a group whose payload carries a name, the wrapper returns success and the
  name is registered with the new identifier, so a lookup and the translator see it at
  once (for a group, the translator sees it unless an object has the same name). The
  wrappers and the whole of \<^verbatim>\<open>main\<close> never remove a name from either dictionary, and
  \<^verbatim>\<open>main\<close> never changes the identifier of a registered group.
\<close>

theorem reference_index_registration:
  "(createOrganizationPolicyObject e (calls st) config = Inr ident \<and>
    map_of config ''name'' = Some name \<and> hashable name \<longrightarrow>
      fst (create_policy_objects e config st) = Inr ident \<and>
      policy_objects_name_to_id (snd (create_policy_objects e config st)) name = Some ident \<and>
      translate_cidr_to_objects (snd (create_policy_objects e config st)) name =
        Inr (Str (''OBJ('' @ ident @ '')''))) \<and>
   (createOrganizationPolicyObjectsGroup e (calls st) config = Inr ident \<and>
    map_of config ''name'' = Some name \<and> hashable name \<longrightarrow>
      fst (create_policy_object_groups e config st) = Inr ident \<and>
      policy_group_objects_name_to_id (snd (create_policy_object_groups e config st)) name = Some ident \<and>
      (policy_objects_name_to_id st name = None \<longrightarrow>
         translate_cidr_to_objects (snd (create_policy_object_groups e config st)) name =
           Inr (Str (''GRP('' @ ident @ '')'')))) \<and>
   dom (policy_objects_name_to_id st) \<subseteq>
     dom (policy_objects_name_to_id (snd (create_policy_objects e config st))) \<and>
   policy_group_objects_name_to_id (snd (create_policy_objects e config st)) =
     policy_group_objects_name_to_id st \<and>
   dom (policy_group_objects_name_to_id st) \<subseteq>
     dom (policy_group_objects_name_to_id (snd (create_policy_object_groups e config st))) \<and>
   policy_objects_name_to_id (snd (create_policy_object_groups e config st)) =
     policy_objects_name_to_id st \<and>
   dom (policy_objects_name_to_id st) \<subseteq> dom (policy_objects_name_to_id (snd (main e st))) \<and>
   policy_group_objects_name_to_id st \<subseteq>\<^sub>m policy_group_objects_name_to_id (snd (main e st))"
proof (intro conjI impI)
  assume a: "createOrganizationPolicyObject e (calls st) config = Inr ident \<and>
    map_of config ''name'' = Some name \<and> hashable name"
  then show "fst (create_policy_objects e config st) = Inr ident"
    and r: "policy_objects_name_to_id (snd (create_policy_objects e config st)) name = Some ident"
    by (simp_all add: create_policy_objects_registers)
  from a r show "translate_cidr_to_objects (snd (create_policy_objects e config st)) name =
        Inr (Str (''OBJ('' @ ident @ '')''))"
    by (simp add: translate_cidr_to_objects_def)
next
  assume a: "createOrganizationPolicyObjectsGroup e (calls st) config = Inr ident \<and>
    map_of config ''name'' = Some name \<and> hashable name"
  then show "fst (create_policy_object_groups e config st) = Inr ident"
    and r: "policy_group_objects_name_to_id (snd (create_policy_object_groups e config st)) name = Some ident"
    by (simp_all add: create_policy_object_groups_registers)
  assume "policy_objects_name_to_id st name = None"
  then have "policy_objects_name_to_id (snd (create_policy_object_groups e config st)) name = None"
    using create_policy_object_groups_domains[of e config st] by simp
  with a r show "translate_cidr_to_objects (snd (create_policy_object_groups e config st)) name =
           Inr (Str (''GRP('' @ ident @ '')''))"
    by (simp add: translate_cidr_to_objects_def)
next
  show "dom (policy_objects_name_to_id st) \<subseteq>
     dom (policy_objects_name_to_id (snd (create_policy_objects e config st)))"
    "policy_group_objects_name_to_id (snd (create_policy_objects e config st)) =
     policy_group_objects_name_to_id st"
    using create_policy_objects_domains[of e config st] by blast+
  show "dom (policy_group_objects_name_to_id st) \<subseteq>
     dom (policy_group_objects_name_to_id (snd (create_policy_object_groups e config st)))"
    "policy_objects_name_to_id (snd (create_policy_object_groups e config st)) =
     policy_objects_name_to_id st"
    using create_policy_object_groups_domains[of e config st] by blast+
  show "dom (policy_objects_name_to_id st) \<subseteq> dom (policy_objects_name_to_id (snd (main e st)))"
    "policy_group_objects_name_to_id st \<subseteq>\<^sub>m policy_group_objects_name_to_id (snd (main e st))"
    using main_extends[of st e] unfolding extends_def by blast+
qed

text \<open>
  An object and a group are created and then translated.
\<close>

theorem reference_index_registration_witness:
  "policy_objects_name_to_id
     (snd (create_policy_objects env_rules_missing (object_row ''Db-1'' ''10.1.2.10/32'' '''') index_example))
     (Str ''Db-1'') = Some ''123'' \<and>
   translate_cidr_to_objects
     (snd (create_policy_objects env_rules_missing (object_row ''Db-1'' ''10.1.2.10/32'' '''') index_example))
     (Str ''Db-1'') = Inr (Str ''OBJ(123)'') \<and>
   policy_group_objects_name_to_id
     (snd (create_policy_object_groups env_rules_missing (group_payload ''Clients'') index_example))
     (Str ''Clients'') = Some ''7'' \<and>
   translate_cidr_to_objects
     (snd (create_policy_object_groups env_rules_missing (group_payload ''Clients'') index_example))
     (Str ''Clients'') = Inr (Str ''GRP(7)'')"
proof -
  have o: "createOrganizationPolicyObject env_rules_missing (calls index_example)
             (object_row ''Db-1'' ''10.1.2.10/32'' '''') = Inr ''123'' \<and>
           map_of (object_row ''Db-1'' ''10.1.2.10/32'' '''') ''name'' = Some (Str ''Db-1'') \<and>
           hashable (Str ''Db-1'')"
    by simp
  have g: "createOrganizationPolicyObjectsGroup env_rules_missing (calls index_example)
             (group_payload ''Clients'') = Inr ''7'' \<and>
           map_of (group_payload ''Clients'') ''name'' = Some (Str ''Clients'') \<and>
           hashable (Str ''Clients'')"
    by simp
  have n: "policy_objects_name_to_id index_example (Str ''Clients'') = None" by simp
  from reference_index_registration[of env_rules_missing index_example
      "object_row ''Db-1'' ''10.1.2.10/32'' ''''" "''123''" "Str ''Db-1''"] o
  have 1: "policy_objects_name_to_id
     (snd (create_policy_objects env_rules_missing (object_row ''Db-1'' ''10.1.2.10/32'' '''') index_example))
     (Str ''Db-1'') = Some ''123''"
    and 2: "translate_cidr_to_objects
     (snd (create_policy_objects env_rules_missing (object_row ''Db-1'' ''10.1.2.10/32'' '''') index_example))
     (Str ''Db-1'') = Inr (Str (''OBJ('' @ ''123'' @ '')''))"
    by blast+
  from reference_index_registration[of env_rules_missing index_example
      "group_payload ''Clients''" "''7''" "Str ''Clients''"] g n
  have 3: "policy_group_objects_name_to_id
     (snd (create_policy_object_groups env_rules_missing (group_payload ''Clients'') index_example))
     (Str ''Clients'') = Some ''7''"
    and 4: "translate_cidr_to_objects
     (snd (create_policy_object_groups env_rules_missing (group_payload ''Clients'') index_example))
     (Str ''Clients'') = Inr (Str (''GRP('' @ ''7'' @ '')''))"
    by blast+
  from 1 2 3 4 show ?thesis by simp
qed

text \<open>
  Claim C8, as the code has it. In a run, no group-creation call is made for a name
  that was in the catalog at start-up; after a group-creation call for a name has
  succeeded, no later group-creation call is made for that name, so at most one creation
  of a name succeeds; and a row that names a registered group makes one call only, the
  creation of the object with the registered identifier under \<^verbatim>\<open>groupIds\<close>.
\<close>

theorem group_creation_once:
  "(\<forall>name\<in>fst ` set (getOrganizationPolicyObjectsGroups e).
      \<forall>ev\<in>set (calls (snd (run e))). group_call_name ev \<noteq> Some (Str name)) \<and>
   (\<forall>i j g. i < j \<and> j < length (calls (snd (run e))) \<and>
            snd (calls (snd (run e)) ! i) \<and> group_call_name (calls (snd (run e)) ! i) = Some g \<longrightarrow>
            group_call_name (calls (snd (run e)) ! j) \<noteq> Some g) \<and>
   (\<forall>st policy_object g group_id.
      map_of policy_object ''_group_name'' = Some g \<and> g \<noteq> Str [] \<and> hashable g \<and>
      policy_group_objects_name_to_id st g = Some group_id \<longrightarrow>
      (\<exists>ok. calls (snd (create_step e policy_object st)) =
         calls st @ [(CreateObject (AList.update ''groupIds'' (PyList [Str group_id])
                        (AList.delete ''_group_name'' policy_object)), ok)]))"
proof (intro conjI ballI allI impI)
  fix name ev
  assume "name \<in> fst ` set (getOrganizationPolicyObjectsGroups e)" "ev \<in> set (calls (snd (run e)))"
  then show "group_call_name ev \<noteq> Some (Str name)"
    using fresh_group_calls_not_registered[OF run_fresh_group_calls, of ev e "Str name"] by blast
next
  fix i j g
  assume "i < j \<and> j < length (calls (snd (run e))) \<and>
            snd (calls (snd (run e)) ! i) \<and> group_call_name (calls (snd (run e)) ! i) = Some g"
  then show "group_call_name (calls (snd (run e)) ! j) \<noteq> Some g"
    using fresh_group_calls_after_success[OF run_fresh_group_calls, of i j e g] by blast
next
  fix st :: state and policy_object :: pydict and g :: pyval and group_id :: string
  assume a: "map_of policy_object ''_group_name'' = Some g \<and> g \<noteq> Str [] \<and> hashable g \<and>
      policy_group_objects_name_to_id st g = Some group_id"
  then have "create_step e policy_object st =
      create_object_step e (AList.update ''groupIds'' (PyList [Str group_id])
                        (AList.delete ''_group_name'' policy_object)) st"
    by (simp add: create_step_def)
  then show "\<exists>ok. calls (snd (create_step e policy_object st)) =
         calls st @ [(CreateObject (AList.update ''groupIds'' (PyList [Str group_id])
                        (AList.delete ''_group_name'' policy_object)), ok)]"
    using create_object_step_calls by simp
qed

text \<open>
  Two rows name a new group and one row names a group of the catalog: one group creation,
  and the three objects carry the cached identifiers.
\<close>

theorem group_creation_once_witness:
  "calls (snd (run env_groups)) =
     [(CreateGroup (group_payload ''Servers''), True),
      (CreateObject (grouped_object ''Web-1'' ''10.1.1.10/32'' ''7''), True),
      (CreateObject (grouped_object ''Web-2'' ''10.1.1.11/32'' ''7''), True),
      (CreateObject (grouped_object ''Db-1'' ''10.1.2.10/32'' ''9''), True)] \<and>
   group_call_name (calls (snd (run env_groups)) ! 1) \<noteq> Some (Str ''Servers'') \<and>
   group_call_name (calls (snd (run env_groups)) ! 0) \<noteq> Some (Str ''Existing'')"
proof -
  have c: "calls (snd (run env_groups)) =
     [(CreateGroup (group_payload ''Servers''), True),
      (CreateObject (grouped_object ''Web-1'' ''10.1.1.10/32'' ''7''), True),
      (CreateObject (grouped_object ''Web-2'' ''10.1.1.11/32'' ''7''), True),
      (CreateObject (grouped_object ''Db-1'' ''10.1.2.10/32'' ''9''), True)]"
    by code_simp
  have h: "(0::nat) < 1 \<and> 1 < length (calls (snd (run env_groups))) \<and>
           snd (calls (snd (run env_groups)) ! 0) \<and>
           group_call_name (calls (snd (run env_groups)) ! 0) = Some (Str ''Servers'')"
    unfolding c by simp
  have m: "''Existing'' \<in> fst ` set (getOrganizationPolicyObjectsGroups env_groups)" by simp
  have m0: "calls (snd (run env_groups)) ! 0 \<in> set (calls (snd (run env_groups)))"
    unfolding c by simp
  note t = group_creation_once[of env_groups]
  from t h have 1: "group_call_name (calls (snd (run env_groups)) ! 1) \<noteq> Some (Str ''Servers'')"
    by blast
  from t m m0 have 2: "group_call_name (calls (snd (run env_groups)) ! 0) \<noteq> Some (Str ''Existing'')"
    by blast
  from c 1 2 show ?thesis by blast
qed

text \<open>
  Claim C8 as stated fails: when the creation of the group fails, the next row that
  names the group makes the call again.
\<close>

theorem group_creation_retried_after_failure:
  "calls (snd (run env_group_fails)) =
     [(CreateGroup (group_payload ''Servers''), False),
      (CreateGroup (group_payload ''Servers''), False)]"
  by code_simp




text \<open>
  Claim C2 fails on the code. In merge mode the merged list of a network replaces
  \<^verbatim>\<open>l3_rules\<close>, so the second network is merged with, and receives, the existing rule of
  the first network; the merge of its own (empty) rules with the rule table is the rule
  table alone.
\<close>

theorem main_second_network_gets_first_networks_rules:
  "fst (run env_two_networks) = None \<and>
   calls (snd (run env_two_networks)) =
     [(ListNetworks, True),
      (GetRules ''N_1'', True), (UpdateRules ''N_1'' [rule_https, rule_deny], True),
      (GetRules ''N_2'', True), (UpdateRules ''N_2'' [rule_https, rule_deny], True)] \<and>
   combine_lists [] [rule_deny] = Inr [rule_deny]"
  by code_simp

text \<open>
  Claim C4 fails on the code. When the listing of the networks fails, the error is
  logged and then the loop over the networks runs over the text of the error: the run
  ends with \<^verbatim>\<open>TypeError\<close>.
\<close>

theorem main_listing_failure_raises:
  "fst (run env_listing_fails) = Some TypeError \<and>
   calls (snd (run env_listing_fails)) = [(ListNetworks, False)] \<and>
   log (snd (run env_listing_fails)) = [ReadObjects 0, ReadRules 1, NetworksError ''404'' ''Not Found'']"
  by code_simp

section \<open>Further properties of the merge and of the driver\<close>

text \<open>
  With no incoming rule the merge returns the existing rules without those of the
  default key, in their order.
\<close>

theorem combine_lists_no_incoming:
  "list_all has_key_fields existing \<Longrightarrow>
   combine_lists existing [] = Inr (filter (\<lambda>r. key_extractor r \<noteq> Inr default_key) existing)"
  using combine_lists_Inr[of existing "[]"] by (simp add: added_rules_def kept_rules_def)

text \<open>
  The default rule is removed from a list of three rules.
\<close>

theorem combine_lists_no_incoming_witness:
  "combine_lists [rule_https, rule_default, rule_deny] [] = Inr [rule_https, rule_deny]"
proof -
  have wf: "list_all has_key_fields [rule_https, rule_default, rule_deny]" by code_simp
  have "filter (\<lambda>r. key_extractor r \<noteq> Inr default_key) [rule_https, rule_default, rule_deny] =
        [rule_https, rule_deny]"
    by code_simp
  with combine_lists_no_incoming[OF wf] show ?thesis by simp
qed

text \<open>
  In overwrite mode the loop over the networks never raises and makes one call for each
  network, in order: the push of the same rule list, with no fetch and no merge.
\<close>

theorem networks_loop_overwrite:
  "\<exists>new. networks_loop e True networks l3_rules st = (None, snd (networks_loop e True networks l3_rules st)) \<and>
         calls (snd (networks_loop e True networks l3_rules st)) = calls st @ new \<and>
         map fst new = map (\<lambda>network. UpdateRules (net_id network) l3_rules) networks"
proof (induction networks arbitrary: st)
  case Nil
  show ?case by simp
next
  case (Cons network rest)
  let ?st1 = "apply_rules e network l3_rules st"
  have "\<exists>ok. calls ?st1 = calls st @ [(UpdateRules (net_id network) l3_rules, ok)]"
    by (auto simp: apply_rules_def update_l3_outbound_rules_def add_call_def lnp_def
        split: sum.splits prod.splits)
  then obtain ok where ok: "calls ?st1 = calls st @ [(UpdateRules (net_id network) l3_rules, ok)]" ..
  from Cons[of ?st1] obtain new where
    new: "networks_loop e True rest l3_rules ?st1 = (None, snd (networks_loop e True rest l3_rules ?st1))"
      "calls (snd (networks_loop e True rest l3_rules ?st1)) = calls ?st1 @ new"
      "map fst new = map (\<lambda>network. UpdateRules (net_id network) l3_rules) rest"
    by blast
  have eq: "networks_loop e True (network # rest) l3_rules st = networks_loop e True rest l3_rules ?st1"
    by simp
  show ?case
    unfolding eq
    by (rule exI[of _ "(UpdateRules (net_id network) l3_rules, ok) # new"]) (use new ok in simp)
qed

lemma create_object_step_no_raise:
  "map_of policy_object ''name'' \<noteq> None \<Longrightarrow> fst (create_object_step e policy_object st) = None"
  by (auto simp: create_object_step_def split: sum.splits prod.splits option.splits)

lemma create_step_no_raise:
  assumes "row_ok policy_object"
  shows "fst (create_step e policy_object st) = None"
proof (cases "map_of policy_object ''_group_name''")
  case None
  with assms show ?thesis by (simp add: create_step_def row_ok_def create_object_step_no_raise)
next
  case (Some g)
  with assms have h: "hashable g" and name: "map_of policy_object ''name'' \<noteq> None"
    by (simp_all add: row_ok_def)
  have name': "map_of (AList.update ''groupIds'' v (AList.delete ''_group_name'' policy_object)) ''name'' \<noteq> None"
    for v using name by (simp add: update_conv' delete_conv')
  let ?payload = "[(''name'', g), (''category'', Str ''NetworkObjectGroup'')]"
  show ?thesis
  proof (cases "g = Str []")
    case True
    with Some name show ?thesis by (simp add: create_step_def create_object_step_no_raise)
  next
    case False
    show ?thesis
    proof (cases "policy_group_objects_name_to_id st g")
      case registered: (Some group_id)
      with Some False h show ?thesis
        by (simp add: create_step_def create_object_step_no_raise[OF name'])
    next
      case None
      have r: "create_policy_object_groups e ?payload st =
         (case createOrganizationPolicyObjectsGroup e (calls st) ?payload of
            Inl err \<Rightarrow> (Inl (error_tuple err), add_call (CreateGroup ?payload) False st)
          | Inr ident \<Rightarrow>
              (Inr ident, (add_call (CreateGroup ?payload) True st)
                 \<lparr>policy_group_objects_name_to_id := (policy_group_objects_name_to_id st)(g \<mapsto> ident)\<rparr>))"
        by (rule create_policy_object_groups_result[OF _ h]) simp
      show ?thesis
      proof (cases "createOrganizationPolicyObjectsGroup e (calls st) ?payload")
        case (Inl err)
        with r None Some False h show ?thesis
          by (cases "error_tuple err") (simp add: create_step_def)
      next
        case (Inr ident)
        with r None Some False h show ?thesis
          by (simp add: create_step_def lnp_def create_object_step_no_raise[OF name'])
      qed
    qed
  qed
qed

text \<open>
  Failures of object and group creation do not end step 1: on rows that have a name and
  a group name that can be a key, the loop never raises, whatever the dashboard answers.
\<close>

theorem create_loop_no_raise:
  "list_all row_ok rows \<Longrightarrow> fst (create_loop e rows st) = None"
proof (induction rows arbitrary: st)
  case Nil
  show ?case by simp
next
  case (Cons row rows)
  then have "fst (create_step e row st) = None" by (simp add: create_step_no_raise)
  then obtain st1 where "create_step e row st = (None, st1)"
    by (cases "create_step e row st") auto
  with Cons show ?case by simp
qed

text \<open>
  Both group creations fail, both rows are skipped with a logged error, and the run goes on.
\<close>

theorem create_loop_no_raise_witness:
  "fst (create_loop env_group_fails
          [object_row ''Web-1'' ''10.1.1.10/32'' ''Servers'', object_row ''Web-2'' ''10.1.1.11/32'' ''Servers'']
          (MERAKI_API_init env_group_fails)) = None \<and>
   log (snd (run env_group_fails)) =
     [ReadObjects 2, GroupError (Str ''Servers'') ''400'' ''Bad Request'',
      GroupError (Str ''Servers'') ''400'' ''Bad Request'', RulesFileNotFound]"
proof -
  have ok: "list_all row_ok
     [object_row ''Web-1'' ''10.1.1.10/32'' ''Servers'', object_row ''Web-2'' ''10.1.1.11/32'' ''Servers'']"
    by (simp add: row_ok_def)
  have l: "log (snd (run env_group_fails)) =
     [ReadObjects 2, GroupError (Str ''Servers'') ''400'' ''Bad Request'',
      GroupError (Str ''Servers'') ''400'' ''Bad Request'', RulesFileNotFound]"
    by code_simp
  from create_loop_no_raise[OF ok] l show ?thesis by blast
qed

lemma combine_lists_wf:
  assumes "list_all has_key_fields ex" "list_all has_key_fields new"
  shows "\<exists>merged. combine_lists ex new = Inr merged \<and> list_all has_key_fields merged"
proof -
  have "list_all has_key_fields (kept_rules ex @ added_rules ex new)"
    using assms added_rules_subset[of ex new] kept_rules_wf[OF assms(1)]
    by (auto simp: list_all_iff)
  with combine_lists_Inr[OF assms] show ?thesis by simp
qed

text \<open>
  Failures of a rule fetch or a rule push do not end the loop over the networks: when
  the rule table and the rules the dashboard returns carry the six key fields as strings,
  the loop never raises, whatever else the dashboard answers.
\<close>

theorem networks_loop_no_raise:
  assumes api: "\<forall>cs network_id rules.
      getNetworkApplianceFirewallL3FirewallRules e cs network_id = Inr rules \<longrightarrow>
      list_all has_key_fields rules"
  shows "list_all has_key_fields l3_rules \<Longrightarrow> fst (networks_loop e overwrite networks l3_rules st) = None"
proof (induction networks arbitrary: l3_rules st)
  case Nil
  show ?case by simp
next
  case (Cons network rest)
  show ?case
  proof (cases overwrite)
    case True
    with Cons show ?thesis by simp
  next
    case False
    show ?thesis
    proof (cases "getNetworkApplianceFirewallL3FirewallRules e (calls st) (net_id network)")
      case (Inl err)
      with False Cons show ?thesis
        by (cases "error_tuple err") (simp add: get_l3_outbound_rules_def)
    next
      case (Inr existing_rules)
      with api have "list_all has_key_fields existing_rules" by blast
      from combine_lists_wf[OF this Cons.prems] obtain merged where
        "combine_lists existing_rules l3_rules = Inr merged" "list_all has_key_fields merged"
        by blast
      with Inr False Cons.IH show ?thesis
        by (simp add: get_l3_outbound_rules_def)
    qed
  qed
qed

text \<open>
  The fetch fails for the first network and the push fails for the second: both are
  logged and the run ends normally.
\<close>

theorem networks_loop_no_raise_witness:
  "fst (networks_loop env_fetch_fails False
          [appliance_network ''N_1'' ''branch 1'', appliance_network ''N_2'' ''branch 2'']
          [rule_deny] (MERAKI_API_init env_fetch_fails)) = None \<and>
   calls (snd (run env_fetch_fails)) =
     [(ListNetworks, True), (GetRules ''N_1'', False),
      (GetRules ''N_2'', True), (UpdateRules ''N_2'' [rule_https, rule_deny], False)] \<and>
   log (snd (run env_fetch_fails)) =
     [ReadObjects 0, ReadRules 1, NetworksFound [''branch 1'', ''branch 2''],
      GetRulesError ''branch 1'' ''500'' ''timeout'',
      ApplyError ''branch 2'' ''400'' ''Bad Request'']"
proof -
  have wf_https: "list_all has_key_fields [rule_https]" by code_simp
  have api: "\<forall>cs network_id rules.
      getNetworkApplianceFirewallL3FirewallRules env_fetch_fails cs network_id = Inr rules \<longrightarrow>
      list_all has_key_fields rules"
    using wf_https by (auto split: if_splits)
  have wf: "list_all has_key_fields [rule_deny]" by code_simp
  have c: "calls (snd (run env_fetch_fails)) =
     [(ListNetworks, True), (GetRules ''N_1'', False),
      (GetRules ''N_2'', True), (UpdateRules ''N_2'' [rule_https, rule_deny], False)]"
    by code_simp
  have l: "log (snd (run env_fetch_fails)) =
     [ReadObjects 0, ReadRules 1, NetworksFound [''branch 1'', ''branch 2''],
      GetRulesError ''branch 1'' ''500'' ''timeout'',
      ApplyError ''branch 2'' ''400'' ''Bad Request'']"
    by code_simp
  from networks_loop_no_raise[OF api wf] c l show ?thesis by blast
qed

end
